theory Spec2Isabelle
  imports Main "HOL-Library.Sublist" "HOL-Library.AList"
begin

section \<open>Strings\<close>

text \<open>
  Python strings are modelled as \<^typ>\<open>string\<close>, lists of 8-bit characters.
  \<open>str.lower\<close> maps the letters A to Z to a to z and leaves every other character
  alone; \<open>sub in s\<close> is the contiguous-substring test, \<open>s.startswith(p)\<close> and
  \<open>s.endswith(p)\<close> are \<^const>\<open>prefix\<close> and \<^const>\<open>suffix\<close>.
\<close>

definition lower_char :: "char \<Rightarrow> char" where
  "lower_char c =
     (case map_of (zip ''ABCDEFGHIJKLMNOPQRSTUVWXYZ'' ''abcdefghijklmnopqrstuvwxyz'') c of
        None \<Rightarrow> c
      | Some l \<Rightarrow> l)"

definition lower :: "string \<Rightarrow> string" where
  "lower s = map lower_char s"

definition contains :: "string \<Rightarrow> string \<Rightarrow> bool" where
  \<comment> \<open>\<open>contains s sub\<close> is Python's \<open>sub in s\<close>\<close>
  "contains s sub = sublist sub s"

definition startswith :: "string \<Rightarrow> string \<Rightarrow> bool" where
  "startswith s p = prefix p s"

definition endswith :: "string \<Rightarrow> string \<Rightarrow> bool" where
  "endswith s p = suffix p s"

section \<open>Configuration and the post record\<close>

definition reddit_username :: string where
  "reddit_username = ''animetoday''"

definition data_dir :: string where
  "data_dir = ''data''"

text \<open>The dataclass \<open>DailyAnimePost\<close>; its field \<open>id\<close> is named \<open>id'\<close> here.\<close>

record DailyAnimePost =
  title :: string
  id' :: string
  permalink :: string
  media_url :: string
  created_utc :: int
  first_comment :: "string option"

section \<open>The upstream and the effects of a run\<close>

text \<open>
  An asynchronous iterator of the client library is a feed: the items it yields, then
  either the end of the iteration (\<open>None\<close>) or an exception, kept by its message.
  A failure before the first item is a feed with no items.
\<close>

type_synonym 'a feed = "'a list \<times> string option"

record comment =
  author :: "string option"
  body :: string

record submission =
  sub_title :: string
  sub_id :: string
  sub_permalink :: string
  sub_url :: string
  sub_created_utc :: int
  sub_comments :: "comment feed"

text \<open>The client: the account's newest-first listing, by account name.\<close>

type_synonym reddit = "string \<Rightarrow> submission feed"

datatype event =
    Print string
  | Sleep nat
  | ListingRequest string
  | CommentsRequest string
  | HttpGet string

datatype error =
    UpstreamError string
  | NetworkError string
  | FileNotFoundError string
  | NotADirectoryError string
  | IsADirectoryError string
  | FileExistsError string
  | JSONDecodeError string
  | TypeError
  | ValueError

section \<open>Listing Filter: \<open>get_submissions\<close>\<close>

definition month_name :: "string list" where
  "month_name = ['''', ''January'', ''February'', ''March'', ''April'', ''May'', ''June'',
     ''July'', ''August'', ''September'', ''October'', ''November'', ''December'']"

definition day_name :: "string list" where
  "day_name = [''Monday'', ''Tuesday'', ''Wednesday'', ''Thursday'', ''Friday'',
     ''Saturday'', ''Sunday'']"

definition month_names :: "string list" where
  "month_names = map lower (filter (\<lambda>name. name \<noteq> []) month_name)"

definition day_names :: "string list" where
  "day_names = map lower day_name"

definition get_permalink :: "submission \<Rightarrow> string" where
  "get_permalink s = ''https://www.reddit.com'' @ sub_permalink s"

definition no_date_indicator :: "string \<Rightarrow> bool" where
  \<comment> \<open>the condition of the first \<open>if\<close> of the loop, on the lowercased title\<close>
  "no_date_indicator t =
     (\<not> list_ex (\<lambda>month. contains t month) month_names
      \<and> \<not> list_ex (\<lambda>day. contains t day) day_names
      \<and> \<not> contains t ''today'')"

definition is_image :: "string \<Rightarrow> bool" where
  "is_image url = list_ex (\<lambda>e. endswith url e) [''jpg'', ''jpeg'', ''png'', ''gif'']"

text \<open>
  \<open>comment.author == reddit_username\<close>: the client library compares an account with a
  string by name, ignoring case; a deleted author is \<open>None\<close> and equals no name.
\<close>

definition author_is :: "string option \<Rightarrow> string \<Rightarrow> bool" where
  "author_is a name = (case a of None \<Rightarrow> False | Some n \<Rightarrow> lower n = lower name)"

fun scan_comments :: "comment list \<Rightarrow> string option" where
  "scan_comments [] = None"
| "scan_comments (c # cs) =
     (if author_is (author c) reddit_username
         \<and> startswith (body c) ''{'' \<and> endswith (body c) ''}''
      then Some (body c)
      else scan_comments cs)"

text \<open>
  The \<open>try\<close> block of the loop: the comments are read until the first match (then the
  loop breaks, and a later failure of the feed is never met); a feed that fails before a
  match lands in \<open>except Exception\<close>, which prints the message and leaves
  \<open>submission_comment\<close> at \<open>None\<close>. The failures of a feed are exceptions of the client
  library, all of class \<open>Exception\<close>; a cancelled task or a keyboard interrupt is not
  part of the model.
\<close>

definition lookup_comment :: "submission \<Rightarrow> string option \<times> event list" where
  "lookup_comment s =
     (case sub_comments s of (cs, failure) \<Rightarrow>
        (case scan_comments cs of
           Some b \<Rightarrow> (Some b, [CommentsRequest (sub_id s), Print (''Found comment: '' @ b)])
         | None \<Rightarrow>
            (case failure of
               None \<Rightarrow> (None, [CommentsRequest (sub_id s)])
             | Some msg \<Rightarrow>
                 (None, [CommentsRequest (sub_id s), Print (''Error getting comment: '' @ msg)]))))"

definition skip_title_notice :: "submission \<Rightarrow> string" where
  "skip_title_notice s =
     ''Skipping '' @ [CHR 0x27] @ sub_title s @ [CHR 0x27]
       @ '' because it doesn't contain a known date indicator in the title - ''
       @ get_permalink s"

definition skip_image_notice :: "submission \<Rightarrow> string" where
  "skip_image_notice s = ''Skipping '' @ sub_title s @ '' because it's not an image''"

definition new_post :: "submission \<Rightarrow> string option \<Rightarrow> DailyAnimePost" where
  \<comment> \<open>the record built at the end of an iteration\<close>
  "new_post s submission_comment =
     \<lparr> title = sub_title s, id' = sub_id s, permalink = get_permalink s,
       media_url = sub_url s, created_utc = sub_created_utc s,
       first_comment = submission_comment \<rparr>"

text \<open>One iteration of the loop: the record appended (if any) and what it emits.\<close>

definition visit :: "submission \<Rightarrow> DailyAnimePost option \<times> event list" where
  "visit s =
     (let t = lower (sub_title s) in
      if no_date_indicator t then (None, [Print (skip_title_notice s)])
      else if \<not> is_image (sub_url s) then (None, [Print (skip_image_notice s)])
      else
        (case lookup_comment s of (submission_comment, evs) \<Rightarrow>
           (Some (new_post s submission_comment),
            [Print ''Checking for comment...'', Sleep 1] @ evs)))"

fun submissions_loop ::
  "submission list \<Rightarrow> DailyAnimePost list \<Rightarrow> event list
     \<Rightarrow> DailyAnimePost list \<times> event list" where
  "submissions_loop [] posts tr = (posts, tr)"
| "submissions_loop (s # rest) posts tr =
     (case visit s of
        (None, evs) \<Rightarrow> submissions_loop rest posts (tr @ evs)
      | (Some p, evs) \<Rightarrow> submissions_loop rest (posts @ [p]) (tr @ evs))"

text \<open>
  \<open>get_submissions\<close> returns the posts, or the exception with which the listing itself
  failed; the second component is what the call emitted.
\<close>

definition get_submissions :: "reddit \<Rightarrow> (error + DailyAnimePost list) \<times> event list" where
  "get_submissions client =
     (case client reddit_username of (subs, failure) \<Rightarrow>
        (case submissions_loop subs [] [ListingRequest reddit_username] of (posts, tr) \<Rightarrow>
           (case failure of
              None \<Rightarrow> (Inr posts, tr)
            | Some msg \<Rightarrow> (Inl (UpstreamError msg), tr))))"

section \<open>Archive Path Resolver\<close>

text \<open>
  \<open>datetime.datetime.utcfromtimestamp\<close> is the standard library's: the timestamp's day
  count from the epoch (floor division by 86400) is added to the ordinal of 1970-01-01,
  719163, and the ordinal is turned into year, month and day by the library's
  \<open>_ord2ymd\<close>, transcribed here with its tables. Timestamps outside the years 1 to 9999
  raise. Only the date is kept: \<open>main\<close> formats nothing else.
\<close>

definition DAYS_IN_MONTH :: "int list" where
  "DAYS_IN_MONTH = [-1, 31, 28, 31, 30, 31, 30, 31, 31, 30, 31, 30, 31]"

definition DAYS_BEFORE_MONTH :: "int list" where
  "DAYS_BEFORE_MONTH = [-1, 0, 31, 59, 90, 120, 151, 181, 212, 243, 273, 304, 334]"

definition month_and_day :: "bool \<Rightarrow> int \<Rightarrow> int \<times> int" where
  \<comment> \<open>the tail of \<open>_ord2ymd\<close>: from the zero-based day of the year\<close>
  "month_and_day leapyear n =
     (let month = (n + 50) div 32;
          preceding = DAYS_BEFORE_MONTH ! nat month + (if month > 2 \<and> leapyear then 1 else 0)
      in if preceding > n
         then
           (let month = month - 1;
                preceding = preceding
                  - (DAYS_IN_MONTH ! nat month + (if month = 2 \<and> leapyear then 1 else 0))
            in (month, n - preceding + 1))
         else (month, n - preceding + 1))"

definition ord2ymd :: "int \<Rightarrow> int \<times> int \<times> int" where
  "ord2ymd ordinal =
     (let n = ordinal - 1;
          n400 = n div 146097; n = n mod 146097;
          year = n400 * 400 + 1;
          n100 = n div 36524; n = n mod 36524;
          n4 = n div 1461; n = n mod 1461;
          n1 = n div 365; n = n mod 365;
          year = year + n100 * 100 + n4 * 4 + n1
      in if n1 = 4 \<or> n100 = 4 then (year - 1, 12, 31)
         else
           (let leapyear = (n1 = 3 \<and> (n4 \<noteq> 24 \<or> n100 = 3))
            in case month_and_day leapyear n of (month, day) \<Rightarrow> (year, month, day)))"

definition utcfromtimestamp :: "int \<Rightarrow> error + int \<times> int \<times> int" where
  "utcfromtimestamp t =
     (if t < - 62135596800 \<or> 253402300799 < t then Inl ValueError
      else Inr (ord2ymd (719163 + t div 86400)))"

text \<open>\<open>strftime\<close>: \<open>%m\<close> and \<open>%d\<close> are two decimal digits, \<open>%B\<close> the month's name.\<close>

definition digit_char :: "int \<Rightarrow> char" where
  "digit_char d = ''0123456789'' ! nat d"

definition two_digits :: "int \<Rightarrow> string" where
  "two_digits n = [digit_char (n div 10), digit_char (n mod 10)]"

definition strftime_m_B :: "int \<times> int \<times> int \<Rightarrow> string" where
  "strftime_m_B date =
     (case date of (year, month, day) \<Rightarrow> two_digits month @ ''_'' @ month_name ! nat month)"

definition strftime_d :: "int \<times> int \<times> int \<Rightarrow> string" where
  "strftime_d date = (case date of (year, month, day) \<Rightarrow> two_digits day)"

text \<open>\<open>os.path.join\<close> of two components, as \<open>posixpath\<close> has it.\<close>

definition path_join :: "string \<Rightarrow> string \<Rightarrow> string" where
  "path_join a b =
     (if startswith b ''/'' then b
      else if a = [] \<or> endswith a ''/'' then a @ b
      else a @ ''/'' @ b)"

definition submission_month_dir :: "int \<times> int \<times> int \<Rightarrow> string" where
  "submission_month_dir date = path_join data_dir (strftime_m_B date)"

definition day_dir_of :: "int \<times> int \<times> int \<Rightarrow> string" where
  "day_dir_of date = path_join (submission_month_dir date) (strftime_d date)"

definition archive_dir :: "int \<Rightarrow> error + string" where
  \<comment> \<open>the directory \<open>main\<close> resolves for a record created at the timestamp\<close>
  "archive_dir t = map_sum id day_dir_of (utcfromtimestamp t)"

section \<open>Files\<close>

text \<open>
  The cache file is read and written through \<open>json.load\<close> and \<open>json.dump\<close>, library
  calls whose text format is the library's: a file that holds JSON text is kept as the
  document the text denotes. Numbers are integers (the record's \<open>created_utc\<close> is
  declared \<open>int\<close>); an object is the list of its members in order. What is written
  as text or bytes (an image, a comment) is a \<open>Text\<close>, and loading one as JSON is a
  decode error.
\<close>

datatype json =
    JNull
  | JBool bool
  | JInt int
  | JStr string
  | JArr "json list"
  | JObj "(string \<times> json) list"

datatype content = Text string | Document json

datatype node = Dir | File content

text \<open>
  The file system is a finite table from path strings to nodes; paths are keys, compared
  as strings. The empty path stands for the working directory, which exists.
\<close>

type_synonym filesystem = "(string \<times> node) list"

record world =
  files :: filesystem
  trace :: "event list"

type_synonym 'a io = "world \<Rightarrow> (error + 'a) \<times> world"

definition bind :: "'a io \<Rightarrow> ('a \<Rightarrow> 'b io) \<Rightarrow> 'b io" where
  "bind m k w = (case m w of (Inl e, w') \<Rightarrow> (Inl e, w') | (Inr x, w') \<Rightarrow> k x w')"

definition emit :: "event \<Rightarrow> unit io" where
  "emit e w = (Inr (), w\<lparr>trace := trace w @ [e]\<rparr>)"

definition path_exists :: "filesystem \<Rightarrow> string \<Rightarrow> bool" where
  \<comment> \<open>\<open>os.path.exists\<close>\<close>
  "path_exists fs p = (map_of fs p \<noteq> None)"

definition isdir :: "filesystem \<Rightarrow> string \<Rightarrow> bool" where
  \<comment> \<open>\<open>os.path.isdir\<close>\<close>
  "isdir fs p = (map_of fs p = Some Dir)"

definition dirname :: "string \<Rightarrow> string" where
  \<comment> \<open>\<open>os.path.dirname\<close>: up to the last slash, trailing slashes dropped unless it is all slashes\<close>
  "dirname p =
     (let h = dropWhile (\<lambda>c. c \<noteq> CHR ''/'') (rev p)
      in if list_all (\<lambda>c. c = CHR ''/'') h then rev h
         else rev (dropWhile (\<lambda>c. c = CHR ''/'') h))"

definition parent_error :: "filesystem \<Rightarrow> string \<Rightarrow> error option" where
  \<comment> \<open>what creating or opening the path meets when its directory is not there\<close>
  "parent_error fs p =
     (let d = dirname p
      in if d = [] \<or> isdir fs d then None
         else if path_exists fs d then Some (NotADirectoryError p)
         else Some (FileNotFoundError p))"

definition mkdir :: "filesystem \<Rightarrow> string \<Rightarrow> error + filesystem" where
  "mkdir fs p =
     (if p = [] then Inl (FileNotFoundError p)
      else if path_exists fs p then Inl (FileExistsError p)
      else case parent_error fs p of
             Some e \<Rightarrow> Inl e
           | None \<Rightarrow> Inr (AList.update p Dir fs))"

definition basename :: "string \<Rightarrow> string" where
  \<comment> \<open>\<open>os.path.basename\<close>: what follows the last slash\<close>
  "basename p = rev (takeWhile (\<lambda>c. c \<noteq> CHR ''/'') (rev p))"

definition split_path :: "string \<Rightarrow> string \<times> string" where
  \<comment> \<open>head and tail as \<open>os.makedirs\<close> takes them: split again when the path ends in a slash\<close>
  "split_path p =
     (let head = dirname p; tail = basename p
      in if tail = [] then (dirname head, basename head) else (head, tail))"

text \<open>
  \<open>os.makedirs\<close>: a missing head is made first (a \<open>FileExistsError\<close> from that call is
  passed over, and a tail \<open>.\<close> ends the call there), then the directory itself.
\<close>

function makedirs :: "filesystem \<Rightarrow> string \<Rightarrow> error + filesystem" where
  "makedirs fs p =
     (case split_path p of (head, tail) \<Rightarrow>
        if head \<noteq> [] \<and> tail \<noteq> [] \<and> \<not> path_exists fs head
        then (case makedirs fs head of
                Inl (FileExistsError q) \<Rightarrow> (if tail = ''.'' then Inr fs else mkdir fs p)
              | Inl e \<Rightarrow> Inl e
              | Inr fs' \<Rightarrow> (if tail = ''.'' then Inr fs' else mkdir fs' p))
        else mkdir fs p)"
  by pat_completeness auto
termination
proof (relation "measure (\<lambda>(fs, p). length p)")
  show "wf (measure (\<lambda>(fs :: filesystem, p :: string). length p))"
    by simp
next
  fix fs :: filesystem and p head tail :: string
  assume s: "(head, tail) = split_path p"
    and c: "head \<noteq> [] \<and> tail \<noteq> [] \<and> \<not> path_exists fs head"
  have le: "length (dirname q) \<le> length q" for q
  proof -
    have "length (dirname q) \<le> length (dropWhile (\<lambda>c. c \<noteq> CHR ''/'') (rev q))"
      by (simp add: dirname_def Let_def length_dropWhile_le)
    also have "\<dots> \<le> length (rev q)" by (rule length_dropWhile_le)
    finally show ?thesis by simp
  qed
  have lt: "length (dirname q) < length q" if "basename q \<noteq> []" for q
  proof -
    have "length (takeWhile (\<lambda>c. c \<noteq> CHR ''/'') (rev q))
        + length (dropWhile (\<lambda>c. c \<noteq> CHR ''/'') (rev q)) = length q"
      by (metis length_append length_rev takeWhile_dropWhile_id)
    moreover have "length (dirname q) \<le> length (dropWhile (\<lambda>c. c \<noteq> CHR ''/'') (rev q))"
      by (simp add: dirname_def Let_def length_dropWhile_le)
    moreover have "0 < length (takeWhile (\<lambda>c. c \<noteq> CHR ''/'') (rev q))"
      using that by (simp add: basename_def)
    ultimately show ?thesis by linarith
  qed
  have "length head < length p"
  proof (cases "basename p = []")
    case True
    with s c have "head = dirname (dirname p)" "basename (dirname p) \<noteq> []"
      by (simp_all add: split_path_def Let_def)
    then show ?thesis using lt[of "dirname p"] le[of p] by simp
  next
    case False
    with s have "head = dirname p" by (simp add: split_path_def Let_def)
    then show ?thesis using lt[OF False] by simp
  qed
  then show "((fs, head), (fs, p)) \<in> measure (\<lambda>(fs, p). length p)"
    by simp
qed


definition open_write :: "filesystem \<Rightarrow> string \<Rightarrow> content \<Rightarrow> error + filesystem" where
  \<comment> \<open>\<open>open(p, "w")\<close> or \<open>open(p, "wb")\<close>, one \<open>write\<close>, and the close\<close>
  "open_write fs p c =
     (if p = [] then Inl (FileNotFoundError p)
      else if isdir fs p then Inl (IsADirectoryError p)
      else case parent_error fs p of
             Some e \<Rightarrow> Inl e
           | None \<Rightarrow> Inr (AList.update p (File c) fs))"

definition open_read :: "filesystem \<Rightarrow> string \<Rightarrow> error + content" where
  "open_read fs p =
     (case map_of fs p of
        None \<Rightarrow> Inl (FileNotFoundError p)
      | Some Dir \<Rightarrow> Inl (IsADirectoryError p)
      | Some (File c) \<Rightarrow> Inr c)"

definition child_name :: "string \<Rightarrow> string \<Rightarrow> string option" where
  \<comment> \<open>the name under which the path is an entry of the directory, if it is one\<close>
  "child_name d p =
     (if prefix (d @ ''/'') p
      then (let n = drop (length d + 1) p
            in if n \<noteq> [] \<and> CHR ''/'' \<notin> set n then Some n else None)
      else None)"

definition entries :: "filesystem \<Rightarrow> string \<Rightarrow> string list" where
  \<comment> \<open>the names of the paths of the table that lie directly in the directory\<close>
  "entries fs d = List.map_filter (child_name d) (remdups (map fst fs))"

definition listdir :: "filesystem \<Rightarrow> string \<Rightarrow> error + string list" where
  \<comment> \<open>\<open>os.listdir\<close>\<close>
  "listdir fs d =
     (case map_of fs d of
        None \<Rightarrow> Inl (FileNotFoundError d)
      | Some (File c) \<Rightarrow> Inl (NotADirectoryError d)
      | Some Dir \<Rightarrow> Inr (entries fs d))"

section \<open>Submission Cache\<close>

definition submissions_urls_file :: string where
  "submissions_urls_file = path_join data_dir ''submissions_urls.json''"

definition to_dict :: "DailyAnimePost \<Rightarrow> json" where
  \<comment> \<open>\<open>o.__dict__\<close>, the \<open>default\<close> hook of \<open>json.dump\<close>\<close>
  "to_dict o' =
     JObj [(''title'', JStr (title o')), (''id'', JStr (id' o')),
           (''permalink'', JStr (permalink o')), (''media_url'', JStr (media_url o')),
           (''created_utc'', JInt (created_utc o')),
           (''first_comment'', case first_comment o' of None \<Rightarrow> JNull | Some c \<Rightarrow> JStr c)]"

definition save_submissions_urls :: "DailyAnimePost list \<Rightarrow> unit io" where
  "save_submissions_urls submissions w =
     (case open_write (files w) submissions_urls_file (Document (JArr (map to_dict submissions))) of
        Inl e \<Rightarrow> (Inl e, w)
      | Inr fs' \<Rightarrow> (Inr (), w\<lparr>files := fs'\<rparr>))"

definition field_names :: "string list" where
  "field_names =
     [''title'', ''id'', ''permalink'', ''media_url'', ''created_utc'', ''first_comment'']"

text \<open>
  \<open>DailyAnimePost(**s)\<close>: anything but an object, a missing key and an unexpected key
  are a \<open>TypeError\<close>. The record's fields carry the types the dataclass declares; Python
  does not check them when it builds the object, so a member of another type is outside
  the typed record, and the model stops there with \<open>TypeError\<close> as well.
\<close>

definition as_str :: "json option \<Rightarrow> error + string" where
  "as_str v = (case v of Some (JStr x) \<Rightarrow> Inr x | _ \<Rightarrow> Inl TypeError)"

definition as_int :: "json option \<Rightarrow> error + int" where
  "as_int v = (case v of Some (JInt x) \<Rightarrow> Inr x | _ \<Rightarrow> Inl TypeError)"

definition as_optional_str :: "json option \<Rightarrow> error + string option" where
  "as_optional_str v =
     (case v of Some JNull \<Rightarrow> Inr None | Some (JStr x) \<Rightarrow> Inr (Some x) | _ \<Rightarrow> Inl TypeError)"

definition and_then :: "error + 'a \<Rightarrow> ('a \<Rightarrow> error + 'b) \<Rightarrow> error + 'b" where
  "and_then r k = (case r of Inl e \<Rightarrow> Inl e | Inr x \<Rightarrow> k x)"

definition from_dict :: "json \<Rightarrow> error + DailyAnimePost" where
  "from_dict s =
     (case s of
        JObj members \<Rightarrow>
          if set (map fst members) \<noteq> set field_names then Inl TypeError
          else
            and_then (as_str (map_of members ''title'')) (\<lambda>t.
            and_then (as_str (map_of members ''id'')) (\<lambda>i.
            and_then (as_str (map_of members ''permalink'')) (\<lambda>p.
            and_then (as_str (map_of members ''media_url'')) (\<lambda>m.
            and_then (as_int (map_of members ''created_utc'')) (\<lambda>c.
            and_then (as_optional_str (map_of members ''first_comment'')) (\<lambda>f.
              Inr \<lparr> title = t, id' = i, permalink = p, media_url = m, created_utc = c,
                    first_comment = f \<rparr>))))))
      | _ \<Rightarrow> Inl TypeError)"

text \<open>What the list comprehension of \<open>load_submissions_urls\<close> iterates over.\<close>

definition iterate :: "json \<Rightarrow> error + json list" where
  "iterate d =
     (case d of
        JArr xs \<Rightarrow> Inr xs
      | JObj members \<Rightarrow> Inr (map (\<lambda>(k, v). JStr k) members)
      | JStr x \<Rightarrow> Inr (map (\<lambda>c. JStr [c]) x)
      | _ \<Rightarrow> Inl TypeError)"

fun from_dicts :: "json list \<Rightarrow> error + DailyAnimePost list" where
  "from_dicts [] = Inr []"
| "from_dicts (s # rest) =
     (case from_dict s of
        Inl e \<Rightarrow> Inl e
      | Inr p \<Rightarrow> (case from_dicts rest of Inl e \<Rightarrow> Inl e | Inr ps \<Rightarrow> Inr (p # ps)))"

definition load_submissions_urls :: "DailyAnimePost list io" where
  "load_submissions_urls w =
     (case open_read (files w) submissions_urls_file of
        Inl e \<Rightarrow> (Inl e, w)
      | Inr (Text t) \<Rightarrow> (Inl (JSONDecodeError t), w)
      | Inr (Document d) \<Rightarrow> (and_then (iterate d) from_dicts, w))"

section \<open>Image Fetcher: \<open>download_image\<close>\<close>

text \<open>The web: what reading a URL's response gives, or the exception raised.\<close>

type_synonym web = "string \<Rightarrow> error + string"

fun split_on :: "char \<Rightarrow> string \<Rightarrow> string list" where
  \<comment> \<open>\<open>str.split(sep)\<close> for a one-character separator\<close>
  "split_on sep [] = [[]]"
| "split_on sep (c # cs) =
     (if c = sep then [] # split_on sep cs
      else (case split_on sep cs of
              [] \<Rightarrow> [[c]]
            | piece # pieces \<Rightarrow> (c # piece) # pieces))"

definition image_path :: "DailyAnimePost \<Rightarrow> string \<Rightarrow> string" where
  \<comment> \<open>the local \<open>image_filename\<close> after its second assignment\<close>
  "image_path submission directory =
     (let image_filename = path_join directory (id' submission);
          extension = last (split_on (CHR ''.'') (media_url submission))
      in image_filename @ ''.'' @ extension)"

definition download_image :: "web \<Rightarrow> DailyAnimePost \<Rightarrow> string \<Rightarrow> unit io" where
  "download_image net submission directory w =
     (let image_filename = image_path submission directory
      in if path_exists (files w) image_filename then (Inr (), w)
         else
           (let w1 = w\<lparr>trace := trace w @ [HttpGet (media_url submission)]\<rparr>
            in case net (media_url submission) of
                 Inl e \<Rightarrow> (Inl e, w1)
               | Inr image_data \<Rightarrow>
                   (case open_write (files w1) image_filename (Text image_data) of
                      Inl e \<Rightarrow> (Inl e, w1)
                    | Inr fs' \<Rightarrow> (Inr (), w1\<lparr>files := fs'\<rparr>))))"

section \<open>The run: \<open>main\<close>\<close>

definition ensure_dir :: "string \<Rightarrow> unit io" where
  \<comment> \<open>\<open>if not os.path.exists(d): os.makedirs(d)\<close>\<close>
  "ensure_dir d w =
     (if path_exists (files w) d then (Inr (), w)
      else case makedirs (files w) d of
             Inl e \<Rightarrow> (Inl e, w)
           | Inr fs' \<Rightarrow> (Inr (), w\<lparr>files := fs'\<rparr>))"

definition resolve_day_dir :: "DailyAnimePost \<Rightarrow> string io" where
  \<comment> \<open>from \<open>submission_date\<close> to the second \<open>os.makedirs\<close>; yields \<open>day_dir\<close>\<close>
  "resolve_day_dir submission w =
     (case utcfromtimestamp (created_utc submission) of
        Inl e \<Rightarrow> (Inl e, w)
      | Inr submission_date \<Rightarrow>
          bind (ensure_dir (submission_month_dir submission_date)) (\<lambda>_.
          bind (ensure_dir (day_dir_of submission_date)) (\<lambda>_ w'.
            (Inr (day_dir_of submission_date), w'))) w)"

definition save_comment :: "DailyAnimePost \<Rightarrow> string \<Rightarrow> unit io" where
  \<comment> \<open>the last \<open>if\<close> of the loop: a comment that is not \<open>None\<close> and not empty is written\<close>
  "save_comment submission day_dir w =
     (case first_comment submission of
        None \<Rightarrow> (Inr (), w)
      | Some c \<Rightarrow>
          if c = [] then (Inr (), w)
          else
            (let comment_filename = path_join day_dir (id' submission @ ''.txt'')
             in case open_write (files w) comment_filename (Text c) of
                  Inl e \<Rightarrow> (Inl e, w)
                | Inr fs' \<Rightarrow> (Inr (), w\<lparr>files := fs'\<rparr>)))"

definition process :: "web \<Rightarrow> DailyAnimePost \<Rightarrow> unit io" where
  \<comment> \<open>the body of the loop of \<open>main\<close>\<close>
  "process net submission =
     bind (emit (Print (''Processing '' @ title submission @ '' - '' @ permalink submission))) (\<lambda>_.
     bind (resolve_day_dir submission) (\<lambda>day_dir.
     bind (download_image net submission day_dir) (\<lambda>_.
       save_comment submission day_dir)))"

fun process_all :: "web \<Rightarrow> DailyAnimePost list \<Rightarrow> unit io" where
  "process_all net [] w = (Inr (), w)"
| "process_all net (submission # rest) w =
     (case process net submission w of
        (Inl e, w') \<Rightarrow> (Inl e, w')
      | (Inr u, w') \<Rightarrow> process_all net rest w')"

definition fetch :: "reddit \<Rightarrow> DailyAnimePost list io" where
  \<comment> \<open>\<open>await get_submissions(reddit)\<close>: it touches no file\<close>
  "fetch client w =
     (case get_submissions client of (r, evs) \<Rightarrow> (r, w\<lparr>trace := trace w @ evs\<rparr>))"

text \<open>
  \<open>main\<close>, from the client it has built: the conditional expression evaluates the one
  branch that \<open>cache_exists\<close> selects.
\<close>

definition main :: "reddit \<Rightarrow> web \<Rightarrow> unit io" where
  "main client net =
     bind (ensure_dir data_dir) (\<lambda>_ w.
       (let cache_exists = path_exists (files w) submissions_urls_file
        in bind (if cache_exists then load_submissions_urls else fetch client)
             (process_all net) w))"

section \<open>Audit Sweep: \<open>perform_audit\<close>\<close>

fun audit_days :: "string \<Rightarrow> string list \<Rightarrow> unit io" where
  "audit_days month_dir [] w = (Inr (), w)"
| "audit_days month_dir (day # days) w =
     (let day_dir = path_join month_dir day
      in case listdir (files w) day_dir of
           Inl e \<Rightarrow> (Inl e, w)
         | Inr listing \<Rightarrow>
             audit_days month_dir days
               (if listing = []
                then w\<lparr>trace := trace w @ [Print (''Empty directory: '' @ day_dir)]\<rparr>
                else w))"

fun audit_months :: "string list \<Rightarrow> unit io" where
  "audit_months [] w = (Inr (), w)"
| "audit_months (month # months) w =
     (let month_dir = path_join data_dir month
      in if \<not> isdir (files w) month_dir then audit_months months w
         else case listdir (files w) month_dir of
                Inl e \<Rightarrow> (Inl e, w)
              | Inr days \<Rightarrow>
                  (case audit_days month_dir days w of
                     (Inl e, w') \<Rightarrow> (Inl e, w')
                   | (Inr u, w') \<Rightarrow> audit_months months w'))"

definition perform_audit :: "unit io" where
  "perform_audit w =
     (case listdir (files w) data_dir of
        Inl e \<Rightarrow> (Inl e, w)
      | Inr months \<Rightarrow>
          (case audit_months months w of
             (Inl e, w') \<Rightarrow> (Inl e, w')
           | (Inr u, w') \<Rightarrow> emit (Print ''Audit complete'') w'))"

section \<open>Observations on a run\<close>

text \<open>The requests a run sends to the upstream, in order.\<close>

definition is_upstream_request :: "event \<Rightarrow> bool" where
  "is_upstream_request e =
     (case e of ListingRequest n \<Rightarrow> True | CommentsRequest i \<Rightarrow> True | _ \<Rightarrow> False)"

definition upstream_requests :: "world \<Rightarrow> event list" where
  "upstream_requests w = filter is_upstream_request (trace w)"

text \<open>A run keeps the documents: every JSON document in the files after it was there before.\<close>

definition keeps_documents :: "filesystem \<Rightarrow> filesystem \<Rightarrow> bool" where
  "keeps_documents fs fs' =
     (\<forall>q d. map_of fs' q = Some (File (Document d)) \<longrightarrow> map_of fs q = Some (File (Document d)))"

text \<open>
  What the sweep visits: the paths of the entries of the month directories (the entries
  of the data directory that are directories), in the order of the listings, and the
  lines reported for those among given paths whose listing is empty.
\<close>

definition day_paths :: "filesystem \<Rightarrow> string list \<Rightarrow> string list" where
  "day_paths fs months =
     concat (map (\<lambda>month_dir. map (path_join month_dir) (entries fs month_dir))
               (filter (isdir fs) (map (path_join data_dir) months)))"

definition empty_reports :: "filesystem \<Rightarrow> string list \<Rightarrow> event list" where
  "empty_reports fs ps =
     map (\<lambda>p. Print (''Empty directory: '' @ p)) (filter (\<lambda>p. entries fs p = []) ps)"

section \<open>Example inputs\<close>

text \<open>Concrete listings, records and file systems at which the theorems below are evaluated.\<close>

definition post_kept :: submission where
  "post_kept = \<lparr> sub_title = ''Anime Today: November 14'', sub_id = ''abc123'',
     sub_permalink = ''/r/anime/comments/abc123/'', sub_url = ''https://i.redd.it/pic.jpg'',
     sub_created_utc = 1700000000,
     sub_comments = ([\<lparr> author = Some ''animetoday'', body = ''{source: x}'' \<rparr>], None) \<rparr>"

definition post_rate_limited :: submission where
  "post_rate_limited = \<lparr> sub_title = ''On this Friday in anime'', sub_id = ''def456'',
     sub_permalink = ''/r/anime/comments/def456/'', sub_url = ''https://i.redd.it/art.png'',
     sub_created_utc = 1700086400,
     sub_comments = ([\<lparr> author = Some ''someone'', body = ''nice'' \<rparr>],
                     Some ''received 429 HTTP response'') \<rparr>"

definition post_no_date :: submission where
  "post_no_date = \<lparr> sub_title = ''Weekly poll'', sub_id = ''ghi789'',
     sub_permalink = ''/r/anime/comments/ghi789/'', sub_url = ''https://i.redd.it/poll.jpg'',
     sub_created_utc = 1700172800, sub_comments = ([], None) \<rparr>"

definition post_video :: submission where
  "post_video = \<lparr> sub_title = ''Anime TODAY'', sub_id = ''jkl012'',
     sub_permalink = ''/r/anime/comments/jkl012/'', sub_url = ''https://v.redd.it/clip'',
     sub_created_utc = 1700259200, sub_comments = ([], None) \<rparr>"


definition cached_post :: DailyAnimePost where
  "cached_post = \<lparr> title = ''Anime Today: November 14'', id' = ''abc123'',
     permalink = ''https://www.reddit.com/r/anime/comments/abc123/'',
     media_url = ''https://i.redd.it/pic.jpg'', created_utc = 1700000000,
     first_comment = Some ''{source: x}'' \<rparr>"

definition uncommented_post :: DailyAnimePost where
  "uncommented_post = \<lparr> title = ''On this Friday in anime'', id' = ''def456'',
     permalink = ''https://www.reddit.com/r/anime/comments/def456/'',
     media_url = ''https://i.redd.it/art.png'', created_utc = 1700086400,
     first_comment = None \<rparr>"

definition empty_world :: world where
  "empty_world = \<lparr> files = [], trace = [] \<rparr>"

definition data_world :: world where
  "data_world = \<lparr> files = [(''data'', Dir)], trace = [] \<rparr>"

definition cached_world :: world where
  "cached_world =
     \<lparr> files = [(''data'', Dir),
                (''data/submissions_urls.json'', File (Document (JArr [to_dict cached_post])))],
       trace = [] \<rparr>"

definition example_net :: web where
  "example_net url = Inr ''IMG''"

definition dated_world :: world where
  "dated_world =
     \<lparr> files = [(''data'', Dir), (''data/11_November'', Dir), (''data/11_November/14'', Dir)],
       trace = [] \<rparr>"

definition dotless_post :: DailyAnimePost where
  "dotless_post = \<lparr> title = ''Anime Today: November 14'', id' = ''abc123'',
     permalink = ''https://www.reddit.com/r/anime/comments/abc123/'',
     media_url = ''https://example.com/view/anime-gif'', created_utc = 1700000000,
     first_comment = None \<rparr>"

definition commented_world :: world where
  "commented_world =
     \<lparr> files = [(''data'', Dir), (''data/11_November'', Dir), (''data/11_November/14'', Dir),
                (''data/11_November/14/abc123.txt'', File (Text ''an older comment''))],
       trace = [] \<rparr>"

definition audit_world :: world where
  "audit_world =
     \<lparr> files = [(''data'', Dir), (''data/submissions_urls.json'', File (Document (JArr []))),
                (''data/11_November'', Dir), (''data/11_November/14'', Dir),
                (''data/11_November/14/abc123.jpg'', File (Text ''IMG'')),
                (''data/11_November/15'', Dir)],
       trace = [] \<rparr>"

definition stray_world :: world where
  "stray_world =
     \<lparr> files = [(''data'', Dir), (''data/11_November'', Dir), (''data/11_November/15'', Dir),
                (''data/11_November/notes.txt'', File (Text ''to do'')),
                (''data/11_November/16'', Dir)],
       trace = [] \<rparr>"


definition text_post :: DailyAnimePost where
  "text_post = \<lparr> title = ''Anime Today: November 14'', id' = ''abc123'',
     permalink = ''https://www.reddit.com/r/anime/comments/abc123/'',
     media_url = ''https://example.com/notes.txt'', created_utc = 1700000000,
     first_comment = None \<rparr>"

definition failing_net :: web where
  "failing_net url = Inl (NetworkError ''connection reset'')"

section \<open>Properties of the Listing Filter\<close>

lemma month_names_eq: "month_names = [''january'', ''february'', ''march'', ''april'', ''may'', ''june'',
     ''july'', ''august'', ''september'', ''october'', ''november'', ''december'']"
  by (simp add: month_names_def month_name_def lower_def lower_char_def)

lemma day_names_eq: "day_names = [''monday'', ''tuesday'', ''wednesday'', ''thursday'', ''friday'',
     ''saturday'', ''sunday'']"
  by (simp add: day_names_def day_name_def lower_def lower_char_def)

lemma no_date_indicator_iff:
  "no_date_indicator t \<longleftrightarrow>
     \<not> (\<exists>word \<in> set month_names \<union> set day_names \<union> {''today''}. contains t word)"
  by (auto simp: no_date_indicator_def list_ex_iff)

lemma visit_kept:
  "\<not> no_date_indicator (lower (sub_title s)) \<Longrightarrow> is_image (sub_url s) \<Longrightarrow>
     visit s = (Some (new_post s (fst (lookup_comment s))),
                [Print ''Checking for comment...'', Sleep 1] @ snd (lookup_comment s))"
  by (simp add: visit_def split: prod.splits)

lemma visit_no_indicator:
  "no_date_indicator (lower (sub_title s)) \<Longrightarrow> visit s = (None, [Print (skip_title_notice s)])"
  by (simp add: visit_def)

lemma visit_not_image:
  "\<not> no_date_indicator (lower (sub_title s)) \<Longrightarrow> \<not> is_image (sub_url s) \<Longrightarrow>
     visit s = (None, [Print (skip_image_notice s)])"
  by (simp add: visit_def)

lemma submissions_loop_eq:
  "submissions_loop subs posts tr =
     (posts @ List.map_filter (\<lambda>s. fst (visit s)) subs,
      tr @ concat (map (\<lambda>s. snd (visit s)) subs))"
  by (induction subs arbitrary: posts tr)
     (auto simp: List.map_filter_simps split: prod.splits option.splits)

lemma map_filter_visit:
  "List.map_filter (\<lambda>s. fst (visit s)) subs =
     map (\<lambda>s. new_post s (fst (lookup_comment s)))
       (filter (\<lambda>s. \<not> no_date_indicator (lower (sub_title s)) \<and> is_image (sub_url s)) subs)"
proof (induction subs)
  case Nil
  show ?case by (simp add: List.map_filter_simps)
next
  case (Cons s subs)
  show ?case
  proof (cases "no_date_indicator (lower (sub_title s))")
    case True
    then show ?thesis using Cons by (simp add: List.map_filter_simps visit_no_indicator)
  next
    case False
    then show ?thesis using Cons
      by (cases "is_image (sub_url s)")
         (simp_all add: List.map_filter_simps visit_kept visit_not_image)
  qed
qed

lemma get_submissions_eq:
  "client reddit_username = (subs, failure) \<Longrightarrow>
   get_submissions client =
     ((case failure of
         None \<Rightarrow> Inr (map (\<lambda>s. new_post s (fst (lookup_comment s)))
           (filter (\<lambda>s. \<not> no_date_indicator (lower (sub_title s)) \<and> is_image (sub_url s)) subs))
       | Some msg \<Rightarrow> Inl (UpstreamError msg)),
      ListingRequest reddit_username # concat (map (\<lambda>s. snd (visit s)) subs))"
  by (simp add: get_submissions_def submissions_loop_eq map_filter_visit split: option.splits)

text \<open>
  Claim C3, as amended. When \<open>get_submissions\<close> returns, its output is, in the listing's
  order, one record for each post whose lowercased title contains a month name, a day
  name or \<open>today\<close> and whose URL ends with \<open>jpg\<close>, \<open>jpeg\<close>, \<open>png\<close> or \<open>gif\<close>: such a
  post is included and every other post is excluded. For every post whose title contains
  none of the words, the skip notice is emitted.
\<close>

theorem listing_filter_title_and_image:
  assumes run: "get_submissions client = (Inr posts, tr)"
    and listing: "client reddit_username = (subs, failure)"
  shows "posts = map (\<lambda>s. new_post s (fst (lookup_comment s)))
           (filter (\<lambda>s. (\<exists>word \<in> set month_names \<union> set day_names \<union> {''today''}.
                            contains (lower (sub_title s)) word)
                        \<and> is_image (sub_url s)) subs)
         \<and> (\<forall>s \<in> set subs.
               \<not> (\<exists>word \<in> set month_names \<union> set day_names \<union> {''today''}.
                     contains (lower (sub_title s)) word)
               \<longrightarrow> Print (skip_title_notice s) \<in> set tr)"
proof -
  from run get_submissions_eq[of client subs failure, OF listing]
  have p: "posts = map (\<lambda>s. new_post s (fst (lookup_comment s)))
           (filter (\<lambda>s. \<not> no_date_indicator (lower (sub_title s)) \<and> is_image (sub_url s)) subs)"
    and t: "tr = ListingRequest reddit_username # concat (map (\<lambda>s. snd (visit s)) subs)"
    by (auto split: option.splits)
  have "Print (skip_title_notice s) \<in> set tr"
    if "s \<in> set subs" "no_date_indicator (lower (sub_title s))" for s
    using that t by (auto simp: visit_no_indicator intro!: bexI[of _ s])
  then show ?thesis using p by (simp add: no_date_indicator_iff)
qed

lemma example_run:
  "get_submissions (\<lambda>name. ([post_kept, post_no_date, post_video], None)) =
     (Inr [new_post post_kept (Some ''{source: x}'')],
      [ListingRequest ''animetoday'',
       Print ''Checking for comment...'', Sleep 1, CommentsRequest ''abc123'',
       Print ''Found comment: {source: x}'',
       Print (skip_title_notice post_no_date),
       Print (skip_image_notice post_video)])"
  by code_simp

theorem listing_filter_title_and_image_witness:
  "get_submissions (\<lambda>name. ([post_kept, post_no_date, post_video], None)) =
     (Inr [new_post post_kept (Some ''{source: x}'')],
      [ListingRequest ''animetoday'',
       Print ''Checking for comment...'', Sleep 1, CommentsRequest ''abc123'',
       Print ''Found comment: {source: x}'',
       Print (skip_title_notice post_no_date),
       Print (skip_image_notice post_video)])
   \<and> [new_post post_kept (Some ''{source: x}'')] =
       map (\<lambda>s. new_post s (fst (lookup_comment s)))
           (filter (\<lambda>s. (\<exists>word \<in> set month_names \<union> set day_names \<union> {''today''}.
                            contains (lower (sub_title s)) word)
                        \<and> is_image (sub_url s)) [post_kept, post_no_date, post_video])"
  using listing_filter_title_and_image[of "\<lambda>name. ([post_kept, post_no_date, post_video], None)" _ _ "[post_kept, post_no_date, post_video]" None, OF example_run]
    example_run
  by simp

text \<open>
  The title alone does not decide inclusion: a post whose title contains \<open>today\<close> and
  whose URL is not an image is excluded, with the notice of the second test.
\<close>

theorem listing_filter_title_counterexample:
  "contains (lower (sub_title post_video)) ''today''
   \<and> get_submissions (\<lambda>name. ([post_video], None)) =
       (Inr [], [ListingRequest ''animetoday'', Print (skip_image_notice post_video)])"
  by code_simp

lemma lookup_comment_raises:
  "sub_comments s = (cs, Some msg) \<Longrightarrow> scan_comments cs = None \<Longrightarrow>
     lookup_comment s =
       (None, [CommentsRequest (sub_id s), Print (''Error getting comment: '' @ msg)])"
  by (simp add: lookup_comment_def)

lemma map_filter_append:
  "List.map_filter f (xs @ ys) = List.map_filter f xs @ List.map_filter f ys"
  by (simp add: List.map_filter_def)

text \<open>
  Claim C8. For a post that passes both inclusion tests and whose comment lookup raises
  (the feed fails before a matching comment), the iteration prints the error, builds the
  record with \<open>first_comment\<close> absent and appends it; the posts after it are visited as
  usual, and the only exception that can leave \<open>get_submissions\<close> is the listing's own.
\<close>

theorem comment_failure_is_contained:
  assumes listing: "client reddit_username = (before @ s # after, failure)"
    and title_ok: "\<not> no_date_indicator (lower (sub_title s))"
    and image_ok: "is_image (sub_url s)"
    and raises: "sub_comments s = (cs, Some msg)" "scan_comments cs = None"
  shows "visit s = (Some (new_post s None),
                    [Print ''Checking for comment...'', Sleep 1, CommentsRequest (sub_id s),
                     Print (''Error getting comment: '' @ msg)])
       \<and> fst (get_submissions client) =
           (case failure of
              None \<Rightarrow> Inr (fst (submissions_loop before [] []) @ new_post s None
                            # fst (submissions_loop after [] []))
            | Some m \<Rightarrow> Inl (UpstreamError m))
       \<and> Print (''Error getting comment: '' @ msg) \<in> set (snd (get_submissions client))"
proof -
  have v: "visit s = (Some (new_post s None),
                    [Print ''Checking for comment...'', Sleep 1, CommentsRequest (sub_id s),
                     Print (''Error getting comment: '' @ msg)])"
    using title_ok image_ok raises by (simp add: visit_kept lookup_comment_raises)
  have r: "fst (get_submissions client) =
           (case failure of
              None \<Rightarrow> Inr (fst (submissions_loop before [] []) @ new_post s None
                            # fst (submissions_loop after [] []))
            | Some m \<Rightarrow> Inl (UpstreamError m))"
    using listing v
    by (simp add: get_submissions_def submissions_loop_eq map_filter_append
          List.map_filter_simps split: option.splits)
  have t: "Print (''Error getting comment: '' @ msg) \<in> set (snd (get_submissions client))"
    using listing v
    by (simp add: get_submissions_def submissions_loop_eq split: option.splits)
  from v r t show ?thesis by simp
qed

theorem comment_failure_is_contained_witness:
  "fst (get_submissions (\<lambda>name. ([post_kept, post_rate_limited, post_no_date], None))) =
     Inr [new_post post_kept (Some ''{source: x}''), new_post post_rate_limited None]
   \<and> Print ''Error getting comment: received 429 HTTP response''
       \<in> set (snd (get_submissions (\<lambda>name. ([post_kept, post_rate_limited, post_no_date], None))))"
proof -
  have a: "(\<lambda>name :: string. ([post_kept, post_rate_limited, post_no_date], None :: string option))
             reddit_username = ([post_kept] @ post_rate_limited # [post_no_date], None)"
    by simp
  have b: "\<not> no_date_indicator (lower (sub_title post_rate_limited))" by code_simp
  have c: "is_image (sub_url post_rate_limited)" by code_simp
  have d: "sub_comments post_rate_limited =
             ([\<lparr> author = Some ''someone'', body = ''nice'' \<rparr>], Some ''received 429 HTTP response'')"
    by (simp add: post_rate_limited_def)
  have e: "scan_comments [\<lparr> author = Some ''someone'', body = ''nice'' \<rparr>] = None" by code_simp
  have f: "fst (submissions_loop [post_kept] [] []) = [new_post post_kept (Some ''{source: x}'')]"
    by code_simp
  have g: "fst (submissions_loop [post_no_date] [] []) = []" by code_simp
  show ?thesis
    using comment_failure_is_contained[OF a b c d e] f g by simp
qed

section \<open>Properties of the Archive Path Resolver\<close>

lemma month_and_day_table:
  "list_all (\<lambda>n. list_all (\<lambda>leap. case month_and_day leap n of
       (m, d) \<Rightarrow> 1 \<le> m \<and> m \<le> 12 \<and> 1 \<le> d \<and> d \<le> 31) [False, True]) [0..364]"
  by code_simp

lemma month_and_day_range:
  assumes "0 \<le> n" "n \<le> 364" "month_and_day leap n = (m, d)"
  shows "1 \<le> m \<and> m \<le> 12 \<and> 1 \<le> d \<and> d \<le> 31"
proof -
  have a: "n \<in> set [0..364]" using assms by simp
  have b: "leap \<in> set [False, True]" by (cases leap) simp_all
  have "\<forall>n \<in> set [0..364]. \<forall>leap \<in> set [False, True].
          (case month_and_day leap n of (m, d) \<Rightarrow> 1 \<le> m \<and> m \<le> 12 \<and> 1 \<le> d \<and> d \<le> 31)"
    using month_and_day_table by (simp only: list_all_iff)
  then have "\<forall>leap \<in> set [False, True].
          (case month_and_day leap n of (m, d) \<Rightarrow> 1 \<le> m \<and> m \<le> 12 \<and> 1 \<le> d \<and> d \<le> 31)"
    using a by (rule bspec)
  then have "case month_and_day leap n of (m, d) \<Rightarrow> 1 \<le> m \<and> m \<le> 12 \<and> 1 \<le> d \<and> d \<le> 31"
    using b by (rule bspec)
  then show ?thesis using assms(3) by simp
qed

lemma ord2ymd_range:
  assumes "ord2ymd x = (y, m, d)"
  shows "1 \<le> m \<and> m \<le> 12 \<and> 1 \<le> d \<and> d \<le> 31"
proof -
  define n where "n = (x - 1) mod 146097 mod 36524 mod 1461 mod 365"
  have n: "0 \<le> n" "n \<le> 364" by (simp_all add: n_def) 
  show ?thesis
    using assms month_and_day_range[OF n]
    by (auto simp: ord2ymd_def Let_def n_def split: if_splits prod.splits)
qed

lemma digit_char_code:
  assumes "0 \<le> x" "x < 10"
  shows "of_char (digit_char x) = (48 + nat x :: nat)"
proof -
  from assms have "x = 0 \<or> x = 1 \<or> x = 2 \<or> x = 3 \<or> x = 4 \<or> x = 5 \<or> x = 6 \<or> x = 7
      \<or> x = 8 \<or> x = 9"
    by arith
  then show ?thesis
    by (elim disjE) (simp_all add: digit_char_def)
qed

lemma digit_char_inj:
  assumes "digit_char x = digit_char y" "0 \<le> x" "x < 10" "0 \<le> y" "y < 10"
  shows "x = y"
proof -
  have "(of_char (digit_char x) :: nat) = of_char (digit_char y)"
    using assms(1) by simp
  then show ?thesis
    using assms(2-5) by (simp add: digit_char_code)
qed

lemma two_digits_inj:
  assumes "two_digits a = two_digits b" "0 \<le> a" "a < 100" "0 \<le> b" "b < 100"
  shows "a = b"
proof -
  have "a div 10 = b div 10"
    using assms by (intro digit_char_inj) (simp_all add: two_digits_def)
  moreover have "a mod 10 = b mod 10"
    using assms by (intro digit_char_inj) (simp_all add: two_digits_def)
  ultimately show ?thesis
    by (metis mult_div_mod_eq)
qed

lemma length_two_digits: "length (two_digits n) = 2"
  by (simp add: two_digits_def)

lemma digit_char_not_slash:
  assumes "0 \<le> x" "x < 10"
  shows "digit_char x \<noteq> CHR ''/''"
proof
  assume "digit_char x = CHR ''/''"
  then have "(of_char (digit_char x) :: nat) = of_char (CHR ''/'')" by simp
  then show False using assms by (simp add: digit_char_code)
qed

lemma month_name_ends:
  assumes "1 \<le> m" "m \<le> 12"
  shows "month_name ! nat m \<noteq> [] \<and> last (month_name ! nat m) \<noteq> CHR ''/''"
proof -
  from assms have "m = 1 \<or> m = 2 \<or> m = 3 \<or> m = 4 \<or> m = 5 \<or> m = 6 \<or> m = 7
      \<or> m = 8 \<or> m = 9 \<or> m = 10 \<or> m = 11 \<or> m = 12"
    by arith
  then show ?thesis
    by (elim disjE) (simp_all add: month_name_def)
qed

lemma suffix_single: "suffix [c] zs \<longleftrightarrow> zs \<noteq> [] \<and> last zs = c"
  by (cases zs rule: rev_cases) (auto simp: suffix_def)

lemma prefix_single: "prefix [c] zs \<longleftrightarrow> zs \<noteq> [] \<and> hd zs = c"
  by (cases zs) auto

lemma day_dir_of_form:
  assumes "1 \<le> m" "m \<le> 12" "1 \<le> d" "d \<le> 31"
  shows "day_dir_of (y, m, d) =
           ''data/'' @ two_digits m @ ''_'' @ month_name ! nat m @ ''/'' @ two_digits d"
proof -
  have m10: "0 \<le> m div 10" "m div 10 < 10" and d10: "0 \<le> d div 10" "d div 10 < 10"
    using assms by simp_all
  have md: "submission_month_dir (y, m, d) = ''data/'' @ two_digits m @ ''_'' @ month_name ! nat m"
    using digit_char_not_slash[OF m10]
    by (simp add: submission_month_dir_def strftime_m_B_def path_join_def data_dir_def
          startswith_def endswith_def two_digits_def suffix_def)
  have "\<not> endswith (submission_month_dir (y, m, d)) ''/''"
    unfolding md endswith_def using month_name_ends[OF assms(1,2)]
    by (simp add: suffix_single)
  moreover have "\<not> startswith (strftime_d (y, m, d)) ''/''"
    using digit_char_not_slash[OF d10]
    by (simp add: strftime_d_def startswith_def two_digits_def)
  ultimately show ?thesis
    by (simp add: day_dir_of_def path_join_def md strftime_d_def)
qed

lemma day_dir_of_inj:
  assumes r1: "1 \<le> m1" "m1 \<le> 12" "1 \<le> d1" "d1 \<le> 31"
    and r2: "1 \<le> m2" "m2 \<le> 12" "1 \<le> d2" "d2 \<le> 31"
    and eq: "day_dir_of (y1, m1, d1) = day_dir_of (y2, m2, d2)"
  shows "m1 = m2 \<and> d1 = d2"
proof -
  from eq have e: "two_digits m1 @ (''_'' @ month_name ! nat m1 @ ''/'' @ two_digits d1)
      = two_digits m2 @ (''_'' @ month_name ! nat m2 @ ''/'' @ two_digits d2)"
    by (simp add: day_dir_of_form[OF r1] day_dir_of_form[OF r2])
  then have "two_digits m1 = two_digits m2"
    by (subst (asm) append_eq_append_conv) (simp_all add: length_two_digits)
  then have m: "m1 = m2"
    using r1 r2 by (intro two_digits_inj) simp_all
  with e have "two_digits d1 = two_digits d2" by simp
  then have "d1 = d2"
    using r1 r2 by (intro two_digits_inj) simp_all
  with m show ?thesis by simp
qed

text \<open>
  Claim C2, as amended. A record whose timestamp is in range resolves to the directory
  \<open>data/MM_MonthName/DD\<close> of its UTC month and day of the month, and two records resolve
  to the same directory exactly when their month and their day of the month agree. So
  two records on the same calendar day share their directory, records that differ in the
  month or the day of the month never do, and the year plays no part.
\<close>

theorem archive_dir_by_month_and_day:
  assumes t1: "utcfromtimestamp t1 = Inr (y1, m1, d1)"
    and t2: "utcfromtimestamp t2 = Inr (y2, m2, d2)"
  shows "archive_dir t1 =
           Inr (''data/'' @ two_digits m1 @ ''_'' @ month_name ! nat m1 @ ''/'' @ two_digits d1)
       \<and> (archive_dir t1 = archive_dir t2 \<longleftrightarrow> m1 = m2 \<and> d1 = d2)
       \<and> (utcfromtimestamp t1 = utcfromtimestamp t2 \<longrightarrow> archive_dir t1 = archive_dir t2)"
proof -
  from t1 have o1: "ord2ymd (719163 + t1 div 86400) = (y1, m1, d1)"
    by (simp add: utcfromtimestamp_def split: if_splits)
  from t2 have o2: "ord2ymd (719163 + t2 div 86400) = (y2, m2, d2)"
    by (simp add: utcfromtimestamp_def split: if_splits)
  note r1 = ord2ymd_range[OF o1] and r2 = ord2ymd_range[OF o2]
  have a1: "archive_dir t1 = Inr (day_dir_of (y1, m1, d1))"
    and a2: "archive_dir t2 = Inr (day_dir_of (y2, m2, d2))"
    using t1 t2 by (simp_all add: archive_dir_def)
  have form: "day_dir_of (y1, m1, d1) =
           ''data/'' @ two_digits m1 @ ''_'' @ month_name ! nat m1 @ ''/'' @ two_digits d1"
    using r1 by (intro day_dir_of_form) simp_all
  have "day_dir_of (y1, m1, d1) = day_dir_of (y2, m2, d2) \<longleftrightarrow> m1 = m2 \<and> d1 = d2"
  proof
    assume "day_dir_of (y1, m1, d1) = day_dir_of (y2, m2, d2)"
    then show "m1 = m2 \<and> d1 = d2"
      using r1 r2 by (intro day_dir_of_inj[of m1 d1 m2 d2 y1 y2]) simp_all
  next
    assume "m1 = m2 \<and> d1 = d2"
    then show "day_dir_of (y1, m1, d1) = day_dir_of (y2, m2, d2)"
      by (simp add: day_dir_of_def submission_month_dir_def strftime_m_B_def strftime_d_def)
  qed
  then show ?thesis using a1 a2 form by (simp add: archive_dir_def)
qed

theorem archive_dir_by_month_and_day_witness:
  "utcfromtimestamp 1700000000 = Inr (2023, 11, 14)
   \<and> utcfromtimestamp 1700086400 = Inr (2023, 11, 15)
   \<and> archive_dir 1700000000 = Inr ''data/11_November/14''
   \<and> archive_dir 1700000000 \<noteq> archive_dir 1700086400"
proof -
  have a: "utcfromtimestamp 1700000000 = Inr (2023, 11, 14)" by code_simp
  have b: "utcfromtimestamp 1700086400 = Inr (2023, 11, 15)" by code_simp
  have c: "''data/'' @ two_digits 11 @ ''_'' @ month_name ! nat 11 @ ''/'' @ two_digits 14
             = ''data/11_November/14''"
    by code_simp
  have d: "archive_dir 1700000000 = Inr ''data/11_November/14''"
    using conjunct1[OF archive_dir_by_month_and_day[OF a b]] by (simp only: c)
  have e: "archive_dir 1700000000 \<noteq> archive_dir 1700086400"
    using conjunct2[OF archive_dir_by_month_and_day[OF a b]] by simp
  from a b d e show ?thesis by blast
qed

text \<open>
  The directory carries no year: 14 November 2023 and 14 November 2024 are different
  calendar days and resolve to the same directory.
\<close>

theorem archive_dir_ignores_year_counterexample:
  "utcfromtimestamp 1700000000 = Inr (2023, 11, 14)
   \<and> utcfromtimestamp 1731622400 = Inr (2024, 11, 14)
   \<and> archive_dir 1700000000 = Inr ''data/11_November/14''
   \<and> archive_dir 1731622400 = Inr ''data/11_November/14''"
  by code_simp

section \<open>Properties of the run\<close>

lemma ensure_dir_trace: "ensure_dir d w = (r, w') \<Longrightarrow> trace w' = trace w"
  by (auto simp: ensure_dir_def split: if_splits sum.splits)

lemma resolve_day_dir_trace: "resolve_day_dir s w = (r, w') \<Longrightarrow> trace w' = trace w"
  by (auto simp: resolve_day_dir_def bind_def split: sum.splits prod.splits)
     (metis ensure_dir_trace)+

lemma download_image_requests:
  "download_image net s d w = (r, w') \<Longrightarrow> upstream_requests w' = upstream_requests w"
  by (auto simp: download_image_def Let_def upstream_requests_def is_upstream_request_def
        split: if_splits sum.splits)

lemma save_comment_trace: "save_comment s d w = (r, w') \<Longrightarrow> trace w' = trace w"
  by (auto simp: save_comment_def Let_def split: option.splits if_splits sum.splits)

lemma process_requests:
  assumes "process net s w = (r, w')"
  shows "upstream_requests w' = upstream_requests w"
proof -
  let ?w0 = "w\<lparr>trace := trace w @ [Print (''Processing '' @ title s @ '' - '' @ permalink s)]\<rparr>"
  have e: "upstream_requests ?w0 = upstream_requests w"
    by (simp add: upstream_requests_def is_upstream_request_def)
  obtain r1 w1 where 1: "resolve_day_dir s ?w0 = (r1, w1)" by (cases "resolve_day_dir s ?w0")
  have t1: "upstream_requests w1 = upstream_requests w"
    using resolve_day_dir_trace[OF 1] e by (simp add: upstream_requests_def)
  show ?thesis
  proof (cases r1)
    case (Inl err)
    then show ?thesis using assms 1 t1 by (simp add: process_def bind_def emit_def)
  next
    case (Inr day_dir)
    obtain r2 w2 where 2: "download_image net s day_dir w1 = (r2, w2)"
      by (cases "download_image net s day_dir w1")
    have t2: "upstream_requests w2 = upstream_requests w"
      using download_image_requests[OF 2] t1 by simp
    show ?thesis
    proof (cases r2)
      case (Inl err)
      then show ?thesis using assms 1 2 t2 Inr by (simp add: process_def bind_def emit_def)
    next
      case (Inr u)
      obtain r3 w3 where 3: "save_comment s day_dir w2 = (r3, w3)"
        by (cases "save_comment s day_dir w2")
      have "upstream_requests w3 = upstream_requests w"
        using save_comment_trace[OF 3] t2 by (simp add: upstream_requests_def)
      then show ?thesis
        using assms 1 2 3 Inr \<open>r1 = Inr day_dir\<close> by (simp add: process_def bind_def emit_def)
    qed
  qed
qed

lemma process_all_requests:
  "process_all net posts w = (r, w') \<Longrightarrow> upstream_requests w' = upstream_requests w"
proof (induction posts arbitrary: w)
  case Nil
  then show ?case by simp
next
  case (Cons s posts)
  obtain r1 w1 where 1: "process net s w = (r1, w1)" by (cases "process net s w")
  show ?case
  proof (cases r1)
    case (Inl e)
    then show ?thesis using Cons.prems 1 process_requests[OF 1] by simp
  next
    case (Inr u)
    then have "process_all net posts w1 = (r, w')" using Cons.prems 1 by simp
    from Cons.IH[OF this] process_requests[OF 1] show ?thesis by simp
  qed
qed

lemma ensure_data_dir:
  "ensure_dir data_dir w =
     (Inr (), if path_exists (files w) data_dir then w
              else w\<lparr>files := AList.update data_dir Dir (files w)\<rparr>)"
  by (simp add: ensure_dir_def data_dir_def makedirs.simps[of _ "''data''"] split_path_def
        dirname_def basename_def mkdir_def parent_error_def)

lemma cache_is_not_data_dir: "submissions_urls_file \<noteq> data_dir"
  by (simp add: submissions_urls_file_def data_dir_def path_join_def startswith_def endswith_def
        suffix_to_prefix)

lemma ensure_data_dir_cache:
  "map_of (files (snd (ensure_dir data_dir w))) submissions_urls_file
     = map_of (files w) submissions_urls_file"
  using cache_is_not_data_dir by (simp add: ensure_data_dir update_conv')

lemma load_keeps_world: "load_submissions_urls w = (r, w') \<Longrightarrow> w' = w"
  by (auto simp: load_submissions_urls_def split: sum.splits content.splits)

text \<open>
  Claim C4. When the cache file exists at the start of \<open>main\<close>, the client plays no part
  in the run and no request is sent to the upstream (the Listing Filter is not invoked);
  the list the loop processes is exactly what the cache file deserializes to, and a cache
  that fails to load ends the run with that error.
\<close>

theorem cache_is_sole_source:
  assumes cache: "path_exists (files w) submissions_urls_file"
  shows "main client net w = main client' net w
       \<and> upstream_requests (snd (main client net w)) = upstream_requests w
       \<and> (open_read (files w) submissions_urls_file = Inr (Document d)
             \<longrightarrow> and_then (iterate d) from_dicts = Inr posts
             \<longrightarrow> main client net w = process_all net posts (snd (ensure_dir data_dir w)))
       \<and> (fst (load_submissions_urls (snd (ensure_dir data_dir w))) = Inl e
             \<longrightarrow> fst (main client net w) = Inl e)"
proof -
  define w1 where "w1 = snd (ensure_dir data_dir w)"
  have w1: "ensure_dir data_dir w = (Inr (), w1)" by (simp add: ensure_data_dir w1_def)
  have ex: "path_exists (files w1) submissions_urls_file"
    using cache by (simp add: path_exists_def ensure_data_dir_cache w1_def)
  have m: "main c net w = bind load_submissions_urls (process_all net) w1" for c
    using ex by (simp add: main_def bind_def[of "ensure_dir data_dir"] w1 Let_def)
  have A: "main client net w = main client' net w" by (simp add: m)
  obtain r2 w2 where l: "load_submissions_urls w1 = (r2, w2)"
    by (cases "load_submissions_urls w1")
  have w2: "w2 = w1" using load_keeps_world[OF l] .
  have t1: "upstream_requests w1 = upstream_requests w"
    using ensure_dir_trace[OF w1] by (simp add: upstream_requests_def)
  have B: "upstream_requests (snd (main client net w)) = upstream_requests w"
  proof (cases r2)
    case (Inl err)
    then show ?thesis using l w2 t1 by (simp add: m bind_def)
  next
    case (Inr ps)
    obtain r3 w3 where p: "process_all net ps w1 = (r3, w3)" by (cases "process_all net ps w1")
    from process_all_requests[OF p] Inr l w2 t1 p show ?thesis by (simp add: m bind_def)
  qed
  have C: "main client net w = process_all net posts (snd (ensure_dir data_dir w))"
    if "open_read (files w) submissions_urls_file = Inr (Document d)"
      and "and_then (iterate d) from_dicts = Inr posts"
  proof -
    have "open_read (files w1) submissions_urls_file = Inr (Document d)"
      using that(1) by (simp add: open_read_def ensure_data_dir_cache w1_def)
    then have "load_submissions_urls w1 = (Inr posts, w1)"
      using that(2) by (simp add: load_submissions_urls_def)
    then show ?thesis by (simp add: m bind_def w1_def[symmetric])
  qed
  have D: "fst (main client net w) = Inl e"
    if "fst (load_submissions_urls (snd (ensure_dir data_dir w))) = Inl e"
    using that by (auto simp: m bind_def w1_def[symmetric] split: prod.splits sum.splits)
  from A B C D show ?thesis by blast
qed

theorem cache_is_sole_source_witness:
  "path_exists (files cached_world) submissions_urls_file
   \<and> upstream_requests (snd (main (\<lambda>name. ([post_no_date], None)) example_net cached_world)) = []
   \<and> main (\<lambda>name. ([post_no_date], None)) example_net cached_world
       = process_all example_net [cached_post] cached_world"
proof -
  have a: "path_exists (files cached_world) submissions_urls_file" by code_simp
  have b: "open_read (files cached_world) submissions_urls_file
             = Inr (Document (JArr [to_dict cached_post]))"
    by code_simp
  have c: "and_then (iterate (JArr [to_dict cached_post])) from_dicts = Inr [cached_post]"
    by code_simp
  have d: "snd (ensure_dir data_dir cached_world) = cached_world" by code_simp
  have e: "upstream_requests cached_world = []" by code_simp
  note t = cache_is_sole_source[OF a, of "\<lambda>name. ([post_no_date], None)" example_net
      "\<lambda>name. ([post_no_date], None)" "JArr [to_dict cached_post]" "[cached_post]"]
  from t have x: "upstream_requests (snd (main (\<lambda>name. ([post_no_date], None)) example_net
        cached_world)) = upstream_requests cached_world"
    by blast
  from t b c have y: "main (\<lambda>name. ([post_no_date], None)) example_net cached_world
       = process_all example_net [cached_post] (snd (ensure_dir data_dir cached_world))"
    by blast
  from a x y show ?thesis by (simp only: d e)
qed

lemma keeps_documents_refl: "keeps_documents fs fs"
  by (simp add: keeps_documents_def)

lemma keeps_documents_trans:
  "keeps_documents fs fs' \<Longrightarrow> keeps_documents fs' fs'' \<Longrightarrow> keeps_documents fs fs''"
  by (simp add: keeps_documents_def)

lemma mkdir_documents: "mkdir fs p = Inr fs' \<Longrightarrow> keeps_documents fs fs'"
  by (auto simp: mkdir_def keeps_documents_def update_conv' split: if_splits option.splits)

lemma makedirs_documents: "makedirs fs p = Inr fs' \<Longrightarrow> keeps_documents fs fs'"
proof (induction fs p arbitrary: fs' rule: makedirs.induct)
  case (1 fs p)
  obtain head tail where sp: "split_path p = (head, tail)" by (cases "split_path p")
  show ?case
  proof (cases "head \<noteq> [] \<and> tail \<noteq> [] \<and> \<not> path_exists fs head")
    case False
    then have "mkdir fs p = Inr fs'" using "1.prems" sp by (subst (asm) makedirs.simps) auto
    then show ?thesis by (rule mkdir_documents)
  next
    case True
    show ?thesis
    proof (cases "makedirs fs head")
      case (Inr fs1)
      from "1.IH"[OF sp[symmetric] True Inr] have k: "keeps_documents fs fs1" .
      from "1.prems" sp True Inr have "fs' = fs1 \<or> mkdir fs1 p = Inr fs'"
        by (subst (asm) makedirs.simps) (auto split: if_splits)
      then show ?thesis
        using k mkdir_documents keeps_documents_trans by blast
    next
      case (Inl e)
      from "1.prems" sp True Inl have "fs' = fs \<or> mkdir fs p = Inr fs'"
        by (subst (asm) makedirs.simps) (auto split: if_splits error.splits)
      then show ?thesis
        using mkdir_documents keeps_documents_refl by blast
    qed
  qed
qed

lemma open_write_text_documents:
  "open_write fs p (Text t) = Inr fs' \<Longrightarrow> keeps_documents fs fs'"
  by (auto simp: open_write_def keeps_documents_def update_conv' split: if_splits option.splits)

lemma ensure_dir_documents:
  "ensure_dir d w = (r, w') \<Longrightarrow> keeps_documents (files w) (files w')"
  by (auto simp: ensure_dir_def keeps_documents_refl makedirs_documents split: if_splits sum.splits)

lemma bind_documents:
  assumes "bind m k w = (r, w')"
    and "\<And>r1 w1. m w = (r1, w1) \<Longrightarrow> keeps_documents (files w) (files w1)"
    and "\<And>x w1 r2 w2. k x w1 = (r2, w2) \<Longrightarrow> keeps_documents (files w1) (files w2)"
  shows "keeps_documents (files w) (files w')"
proof -
  obtain r1 w1 where m: "m w = (r1, w1)" by (cases "m w")
  show ?thesis
  proof (cases r1)
    case (Inl e)
    then show ?thesis using assms(1,2) m by (simp add: bind_def)
  next
    case (Inr x)
    then have "k x w1 = (r, w')" using assms(1) m by (simp add: bind_def)
    from assms(3)[OF this] assms(2)[OF m] show ?thesis
      by (rule keeps_documents_trans[rotated])
  qed
qed

lemma resolve_day_dir_documents:
  "resolve_day_dir s w = (r, w') \<Longrightarrow> keeps_documents (files w) (files w')"
proof (cases "utcfromtimestamp (created_utc s)")
  case (Inl e)
  assume "resolve_day_dir s w = (r, w')"
  with Inl show ?thesis by (simp add: resolve_day_dir_def keeps_documents_refl)
next
  case (Inr date)
  assume "resolve_day_dir s w = (r, w')"
  with Inr have b: "bind (ensure_dir (submission_month_dir date)) (\<lambda>_.
          bind (ensure_dir (day_dir_of date)) (\<lambda>_ w'. (Inr (day_dir_of date), w'))) w = (r, w')"
    by (simp add: resolve_day_dir_def)
  show ?thesis
  proof (rule bind_documents[OF b])
    show "keeps_documents (files w) (files w1)"
      if "ensure_dir (submission_month_dir date) w = (r1, w1)" for r1 w1
      using that by (rule ensure_dir_documents)
  next
    fix x :: unit and w1 r2 w2
    assume b2: "bind (ensure_dir (day_dir_of date)) (\<lambda>_ w'. (Inr (day_dir_of date), w')) w1 = (r2, w2)"
    show "keeps_documents (files w1) (files w2)"
    proof (rule bind_documents[OF b2])
      show "keeps_documents (files w1) (files w3)"
        if "ensure_dir (day_dir_of date) w1 = (r3, w3)" for r3 w3
        using that by (rule ensure_dir_documents)
    next
      show "keeps_documents (files w3) (files w4)"
        if "(Inr (day_dir_of date), w3) = (r4, w4)" for w3 w4 :: world and r4 :: "error + string"
        using that by (auto simp: keeps_documents_refl)
    qed
  qed
qed

lemma download_image_documents:
  "download_image net s d w = (r, w') \<Longrightarrow> keeps_documents (files w) (files w')"
  by (auto simp: download_image_def Let_def keeps_documents_refl
        split: if_splits sum.splits dest: open_write_text_documents)

lemma save_comment_documents:
  "save_comment s d w = (r, w') \<Longrightarrow> keeps_documents (files w) (files w')"
  by (auto simp: save_comment_def Let_def keeps_documents_refl
        split: option.splits if_splits sum.splits dest: open_write_text_documents)

lemma process_documents:
  assumes "process net s w = (r, w')"
  shows "keeps_documents (files w) (files w')"
proof (rule bind_documents[OF assms[unfolded process_def]])
  show "keeps_documents (files w) (files w1)"
    if "emit (Print (''Processing '' @ title s @ '' - '' @ permalink s)) w = (r1, w1)" for r1 w1
    using that by (auto simp: emit_def keeps_documents_refl)
next
  fix x :: unit and w1 r2 w2
  assume b: "bind (resolve_day_dir s) (\<lambda>day_dir.
     bind (download_image net s day_dir) (\<lambda>_. save_comment s day_dir)) w1 = (r2, w2)"
  show "keeps_documents (files w1) (files w2)"
  proof (rule bind_documents[OF b])
    show "keeps_documents (files w1) (files w3)" if "resolve_day_dir s w1 = (r3, w3)" for r3 w3
      using that by (rule resolve_day_dir_documents)
  next
    fix day_dir w3 r4 w4
    assume b3: "bind (download_image net s day_dir) (\<lambda>_. save_comment s day_dir) w3 = (r4, w4)"
    show "keeps_documents (files w3) (files w4)"
    proof (rule bind_documents[OF b3])
      show "keeps_documents (files w3) (files w5)"
        if "download_image net s day_dir w3 = (r5, w5)" for r5 w5
        using that by (rule download_image_documents)
    next
      show "keeps_documents (files w5) (files w6)"
        if "save_comment s day_dir w5 = (r6, w6)" for w5 r6 w6
        using that by (rule save_comment_documents)
    qed
  qed
qed

lemma process_all_documents:
  "process_all net posts w = (r, w') \<Longrightarrow> keeps_documents (files w) (files w')"
proof (induction posts arbitrary: w)
  case Nil
  then show ?case by (simp add: keeps_documents_refl)
next
  case (Cons s posts)
  obtain r1 w1 where 1: "process net s w = (r1, w1)" by (cases "process net s w")
  note k = process_documents[OF 1]
  show ?case
  proof (cases r1)
    case (Inl e)
    then show ?thesis using Cons.prems 1 k by simp
  next
    case (Inr u)
    then have "process_all net posts w1 = (r, w')" using Cons.prems 1 by simp
    from Cons.IH[OF this] k show ?thesis by (rule keeps_documents_trans[rotated])
  qed
qed

text \<open>
  No run of \<open>main\<close> writes a JSON document: \<open>save_submissions_urls\<close> is not called, and
  the directories, images and comments a run writes are none. Whatever cache file a later
  run reads was there before this one.
\<close>

lemma main_writes_no_document:
  assumes "main client net w = (r, w')"
  shows "keeps_documents (files w) (files w')"
proof (rule bind_documents[OF assms[unfolded main_def]])
  show "keeps_documents (files w) (files w1)" if "ensure_dir data_dir w = (r1, w1)" for r1 w1
    using that by (rule ensure_dir_documents)
next
  fix x :: unit and w1 r2 w2
  assume "(let cache_exists = path_exists (files w1) submissions_urls_file
           in bind (if cache_exists then load_submissions_urls else fetch client)
                (process_all net) w1) = (r2, w2)"
  then have b: "bind (if path_exists (files w1) submissions_urls_file
                      then load_submissions_urls else fetch client) (process_all net) w1 = (r2, w2)"
    by (simp add: Let_def)
  show "keeps_documents (files w1) (files w2)"
  proof (rule bind_documents[OF b])
    show "keeps_documents (files w1) (files w3)"
      if "(if path_exists (files w1) submissions_urls_file
           then load_submissions_urls else fetch client) w1 = (r3, w3)" for r3 w3
      using that
      by (auto simp: load_submissions_urls_def fetch_def keeps_documents_refl
            split: if_splits sum.splits content.splits prod.splits)
  next
    show "keeps_documents (files w3) (files w4)"
      if "process_all net posts w3 = (r4, w4)" for posts w3 r4 w4
      using that by (rule process_all_documents)
  qed
qed

text \<open>
  Claim C1 at a concrete run: from an empty file system and a listing with one post that
  passes the filter, \<open>main\<close> ends normally and has stored the image, and no cache file
  exists afterwards; a second run from the resulting state asks the upstream again.
\<close>

theorem main_writes_no_cache:
  "fst (main (\<lambda>name. ([post_kept], None)) example_net empty_world) = Inr ()
   \<and> map_of (files (snd (main (\<lambda>name. ([post_kept], None)) example_net empty_world)))
        submissions_urls_file = None
   \<and> map_of (files (snd (main (\<lambda>name. ([post_kept], None)) example_net empty_world)))
        ''data/11_November/14/abc123.jpg'' = Some (File (Text ''IMG''))
   \<and> upstream_requests (snd (main (\<lambda>name. ([post_kept], None)) example_net
         (snd (main (\<lambda>name. ([post_kept], None)) example_net empty_world))))
       = [ListingRequest ''animetoday'', CommentsRequest ''abc123'',
          ListingRequest ''animetoday'', CommentsRequest ''abc123'']"
  by code_simp

section \<open>Properties of the Submission Cache\<close>

lemma from_dict_to_dict: "from_dict (to_dict p) = Inr p"
  by (cases "first_comment p")
     (auto simp: from_dict_def to_dict_def field_names_def and_then_def as_str_def as_int_def
        as_optional_str_def)

lemma from_dicts_to_dicts: "from_dicts (map to_dict ps) = Inr ps"
  by (induction ps) (simp_all add: from_dict_to_dict)

lemma open_read_after_write:
  "open_write fs p c = Inr fs' \<Longrightarrow> open_read fs' p = Inr c"
  by (auto simp: open_write_def open_read_def update_conv' split: if_splits option.splits)

lemma to_dict_null:
  "first_comment p = None \<Longrightarrow>
     to_dict p = JObj [(''title'', JStr (title p)), (''id'', JStr (id' p)),
       (''permalink'', JStr (permalink p)), (''media_url'', JStr (media_url p)),
       (''created_utc'', JInt (created_utc p)), (''first_comment'', JNull)]"
  by (simp add: to_dict_def)

text \<open>
  Claim C6. After a \<open>save_submissions_urls\<close> that returns, \<open>load_submissions_urls\<close>
  returns the very list that was saved, record for record and field for field; a record
  without a comment is written with \<open>first_comment\<close> null and read back without one.
\<close>

theorem save_then_load:
  assumes "save_submissions_urls submissions w = (Inr u, w')"
  shows "load_submissions_urls w' = (Inr submissions, w')
       \<and> open_read (files w') submissions_urls_file
           = Inr (Document (JArr (map to_dict submissions)))
       \<and> (\<forall>p \<in> set submissions. first_comment p = None \<longrightarrow>
             to_dict p = JObj [(''title'', JStr (title p)), (''id'', JStr (id' p)),
               (''permalink'', JStr (permalink p)), (''media_url'', JStr (media_url p)),
               (''created_utc'', JInt (created_utc p)), (''first_comment'', JNull)]
             \<and> from_dict (to_dict p) = Inr p)"
proof -
  from assms obtain fs' where w: "open_write (files w) submissions_urls_file
        (Document (JArr (map to_dict submissions))) = Inr fs'" and w': "w' = w\<lparr>files := fs'\<rparr>"
    by (auto simp: save_submissions_urls_def split: sum.splits)
  have r: "open_read (files w') submissions_urls_file
           = Inr (Document (JArr (map to_dict submissions)))"
    using open_read_after_write[OF w] w' by simp
  then have l: "load_submissions_urls w' = (Inr submissions, w')"
    by (simp add: load_submissions_urls_def iterate_def and_then_def from_dicts_to_dicts)
  have n: "\<forall>p \<in> set submissions. first_comment p = None \<longrightarrow>
             to_dict p = JObj [(''title'', JStr (title p)), (''id'', JStr (id' p)),
               (''permalink'', JStr (permalink p)), (''media_url'', JStr (media_url p)),
               (''created_utc'', JInt (created_utc p)), (''first_comment'', JNull)]
             \<and> from_dict (to_dict p) = Inr p"
    using to_dict_null from_dict_to_dict by blast
  from l r n show ?thesis by blast
qed

theorem save_then_load_witness:
  "fst (save_submissions_urls [cached_post, uncommented_post] data_world) = Inr ()
   \<and> fst (load_submissions_urls (snd (save_submissions_urls [cached_post, uncommented_post] data_world)))
       = Inr [cached_post, uncommented_post]
   \<and> first_comment uncommented_post = None"
proof -
  obtain w' where s: "save_submissions_urls [cached_post, uncommented_post] data_world = (Inr (), w')"
    by (simp add: save_submissions_urls_def data_world_def open_write_def submissions_urls_file_def
          data_dir_def path_join_def startswith_def endswith_def suffix_to_prefix isdir_def
          parent_error_def dirname_def)
  have n: "first_comment uncommented_post = None" by (simp add: uncommented_post_def)
  from save_then_load[OF s] s n show ?thesis by simp
qed

section \<open>Properties of the Image Fetcher and of comment persistence\<close>

lemma path_join_plain:
  "a \<noteq> [] \<Longrightarrow> last a \<noteq> CHR ''/'' \<Longrightarrow> CHR ''/'' \<notin> set b \<Longrightarrow> path_join a b = a @ ''/'' @ b"
  by (cases b) (auto simp: path_join_def startswith_def endswith_def suffix_single)

lemma dropWhile_until:
  "c \<notin> set xs \<Longrightarrow> dropWhile (\<lambda>x. x \<noteq> c) (xs @ c # ys) = c # ys"
  by (induction xs) auto

lemma takeWhile_until:
  "c \<notin> set xs \<Longrightarrow> takeWhile (\<lambda>x. x \<noteq> c) (xs @ c # ys) = xs"
  by (induction xs) auto

lemma dirname_child:
  assumes "d \<noteq> []" "last d \<noteq> CHR ''/''" "CHR ''/'' \<notin> set n"
  shows "dirname (d @ CHR ''/'' # n) = d"
proof -
  have t: "dropWhile (\<lambda>c. c \<noteq> CHR ''/'') (rev (d @ CHR ''/'' # n)) = CHR ''/'' # rev d"
    using assms(3) by (simp add: dropWhile_until)
  obtain xs x where d: "d = xs @ [x]" using assms(1) by (cases d rule: rev_cases) auto
  then have x: "x \<noteq> CHR ''/''" using assms(2) by simp
  show ?thesis
    unfolding dirname_def t Let_def using x by (simp add: d)
qed

lemma split_on_last:
  "split_on c s \<noteq> []
   \<and> last (split_on c s) = rev (takeWhile (\<lambda>x. x \<noteq> c) (rev s))
   \<and> (length (split_on c s) = 1 \<longleftrightarrow> c \<notin> set s)"
proof (induction s)
  case Nil
  show ?case by simp
next
  case (Cons x s)
  show ?case
  proof (cases "x = c")
    case True
    then show ?thesis using Cons by (auto simp: takeWhile_append)
  next
    case False
    obtain p ps where sp: "split_on c s = p # ps" using Cons by (cases "split_on c s") auto
    show ?thesis
    proof (cases ps)
      case Nil
      with sp Cons have "c \<notin> set s" by simp
      then have tw: "takeWhile (\<lambda>x. x \<noteq> c) (rev s) = rev s" by (auto simp: takeWhile_eq_all_conv)
      have "p = s" using sp Nil Cons.IH by (simp add: tw)
      then show ?thesis using sp Nil False \<open>c \<notin> set s\<close> by (auto simp: takeWhile_append tw)
    next
      case (Cons q qs)
      with sp Cons.IH have "c \<in> set s" by auto
      then show ?thesis using sp Cons Cons.IH False by (auto simp: takeWhile_append)
    qed
  qed
qed

lemma extension_of_final_segment:
  assumes "CHR ''.'' \<in> set (basename url)"
  shows "last (split_on (CHR ''.'') url) = last (split_on (CHR ''.'') (basename url))
       \<and> CHR ''/'' \<notin> set (last (split_on (CHR ''.'') url))"
proof -
  define seg where "seg = takeWhile (\<lambda>c. c \<noteq> CHR ''/'') (rev url)"
  define rest where "rest = dropWhile (\<lambda>c. c \<noteq> CHR ''/'') (rev url)"
  have ru: "rev url = seg @ rest" by (simp add: seg_def rest_def)
  have dot: "CHR ''.'' \<in> set seg" using assms by (simp add: basename_def seg_def)
  have noslash: "CHR ''/'' \<notin> set seg"
    unfolding seg_def by (metis (mono_tags, lifting) set_takeWhileD)
  have t: "takeWhile (\<lambda>x. x \<noteq> CHR ''.'') (seg @ rest) = takeWhile (\<lambda>x. x \<noteq> CHR ''.'') seg"
    using dot by (auto simp: takeWhile_append)
  have e: "last (split_on (CHR ''.'') url) = rev (takeWhile (\<lambda>x. x \<noteq> CHR ''.'') seg)"
    using split_on_last[of "CHR ''.''" url] by (simp add: ru t)
  have b: "last (split_on (CHR ''.'') (basename url)) = rev (takeWhile (\<lambda>x. x \<noteq> CHR ''.'') seg)"
    using split_on_last[of "CHR ''.''" "basename url"] by (simp add: basename_def seg_def)
  have "set (takeWhile (\<lambda>x. x \<noteq> CHR ''.'') seg) \<subseteq> set seg"
    by (meson set_takeWhileD subsetI)
  with noslash e b show ?thesis by auto
qed

lemma open_write_in_directory:
  assumes "d \<noteq> []" "last d \<noteq> CHR ''/''" "CHR ''/'' \<notin> set n" "isdir fs d"
    and "\<not> isdir fs (d @ ''/'' @ n)"
  shows "open_write fs (d @ ''/'' @ n) c = Inr (AList.update (d @ ''/'' @ n) (File c) fs)"
  using assms by (simp add: open_write_def parent_error_def dirname_child)

text \<open>
  Where the media URL has a dot in its final path segment, the text after the last dot of
  the URL is the part of that segment after its last dot, and with an identifier free of
  slashes, an existing directory, no file yet at the destination and a read that succeeds,
  the fetcher writes exactly what it read to \<open>directory/id.extension\<close>; the content is
  not inspected.
\<close>

lemma image_written_under_url_extension:
  assumes dir: "directory \<noteq> []" "last directory \<noteq> CHR ''/''" "isdir (files w) directory"
    and ident: "CHR ''/'' \<notin> set (id' submission)"
    and segment: "CHR ''.'' \<in> set (basename (media_url submission))"
    and ext: "extension = last (split_on (CHR ''.'') (basename (media_url submission)))"
    and dest: "dest = directory @ ''/'' @ id' submission @ ''.'' @ extension"
    and absent: "\<not> path_exists (files w) dest"
    and read: "net (media_url submission) = Inr image_data"
  shows "download_image net submission directory w =
           (Inr (), w\<lparr>files := AList.update dest (File (Text image_data)) (files w),
                      trace := trace w @ [HttpGet (media_url submission)]\<rparr>)
       \<and> extension = rev (takeWhile (\<lambda>c. c \<noteq> CHR ''.'') (rev (media_url submission)))"
proof -
  note e = extension_of_final_segment[OF segment]
  have e1: "last (split_on (CHR ''.'') (media_url submission)) = extension"
    using e ext by simp
  have noslash: "CHR ''/'' \<notin> set (id' submission @ ''.'' @ extension)"
    using ident e e1 by auto
  have p: "image_path submission directory = dest"
    using dir ident by (simp add: image_path_def e1 dest path_join_plain)
  have nd: "\<not> isdir (files w) dest"
    using absent by (simp add: path_exists_def isdir_def)
  have "open_write (files w) dest (Text image_data)
          = Inr (AList.update dest (File (Text image_data)) (files w))"
    unfolding dest using open_write_in_directory[OF dir(1,2) noslash dir(3), of "Text image_data"] nd
    by (simp add: dest)
  then have "download_image net submission directory w =
           (Inr (), w\<lparr>files := AList.update dest (File (Text image_data)) (files w),
                      trace := trace w @ [HttpGet (media_url submission)]\<rparr>)"
    using absent read by (simp add: download_image_def p)
  moreover have "extension = rev (takeWhile (\<lambda>c. c \<noteq> CHR ''.'') (rev (media_url submission)))"
    using e1 split_on_last[of "CHR ''.''" "media_url submission"] by simp
  ultimately show ?thesis by simp
qed

lemma image_written_under_url_extension_example:
  "download_image example_net cached_post ''data/11_November/14'' dated_world =
     (Inr (), dated_world\<lparr>files := AList.update ''data/11_November/14/abc123.jpg''
                 (File (Text ''IMG'')) (files dated_world),
               trace := trace dated_world @ [HttpGet ''https://i.redd.it/pic.jpg'']\<rparr>)"
proof -
  have a: "''data/11_November/14'' \<noteq> []" "last ''data/11_November/14'' \<noteq> CHR ''/''"
    "isdir (files dated_world) ''data/11_November/14''"
    "CHR ''/'' \<notin> set (id' cached_post)"
    "CHR ''.'' \<in> set (basename (media_url cached_post))"
    by code_simp+
  have b: "''jpg'' = last (split_on (CHR ''.'') (basename (media_url cached_post)))" by code_simp
  have c: "''data/11_November/14/abc123.jpg'' = ''data/11_November/14'' @ ''/'' @ id' cached_post @ ''.'' @ ''jpg''"
    by code_simp
  have d: "\<not> path_exists (files dated_world) ''data/11_November/14/abc123.jpg''" by code_simp
  have e: "example_net (media_url cached_post) = Inr ''IMG''" by (simp add: example_net_def)
  have f: "media_url cached_post = ''https://i.redd.it/pic.jpg''" by (simp add: cached_post_def)
  from image_written_under_url_extension[where net = example_net, OF a b c d e] show ?thesis by (simp only: f)
qed

text \<open>
  Claim C5 at a concrete record. The URL passes the Listing Filter (it ends with \<open>gif\<close>)
  and has no dot in its final path segment \<open>anime-gif\<close>. The extension the fetcher takes
  is the text after the last dot of the whole URL, \<open>com/view/anime-gif\<close>: the destination
  lies in a directory that does not exist, the URL is read, the open fails, and no file
  \<open>directory/id.extension\<close> is written for any extension of the final path segment.
\<close>

theorem extension_spans_path:
  "is_image (media_url dotless_post)
   \<and> basename (media_url dotless_post) = ''anime-gif''
   \<and> image_path dotless_post ''data/11_November/14''
       = ''data/11_November/14/abc123.com/view/anime-gif''
   \<and> download_image example_net dotless_post ''data/11_November/14'' dated_world
       = (Inl (FileNotFoundError ''data/11_November/14/abc123.com/view/anime-gif''),
          dated_world\<lparr>trace := [HttpGet ''https://example.com/view/anime-gif'']\<rparr>)"
  by code_simp









text \<open>
  The last block of the loop on its own: in an existing day directory, for an identifier
  free of slashes, a comment that is a non-empty string is written as it is to
  \<open>day_dir/id.txt\<close>, whatever the file held before (only a directory of that name is in
  the way); a record whose comment is absent or empty leaves the world as it was.
\<close>

lemma save_comment_in_directory:
  assumes dir: "day_dir \<noteq> []" "last day_dir \<noteq> CHR ''/''" "isdir (files w) day_dir"
    and ident: "CHR ''/'' \<notin> set (id' submission)"
    and name: "comment_filename = day_dir @ ''/'' @ id' submission @ ''.txt''"
    and nodir: "\<not> isdir (files w) comment_filename"
  shows "(\<forall>c. first_comment submission = Some c \<and> c \<noteq> [] \<longrightarrow>
            save_comment submission day_dir w =
              (Inr (), w\<lparr>files := AList.update comment_filename (File (Text c)) (files w)\<rparr>)
            \<and> map_of (files (snd (save_comment submission day_dir w))) comment_filename
                = Some (File (Text c)))
       \<and> (first_comment submission = None \<or> first_comment submission = Some [] \<longrightarrow>
            save_comment submission day_dir w = (Inr (), w))"
proof -
  have noslash: "CHR ''/'' \<notin> set (id' submission @ ''.txt'')"
    using ident by simp
  have j: "path_join day_dir (id' submission @ ''.txt'') = comment_filename"
    using path_join_plain[OF dir(1,2) noslash] name by simp
  have o: "open_write (files w) comment_filename (Text c)
             = Inr (AList.update comment_filename (File (Text c)) (files w))" for c
    using open_write_in_directory[OF dir(1,2) noslash dir(3), of "Text c"] nodir name by simp
  have "save_comment submission day_dir w =
          (Inr (), w\<lparr>files := AList.update comment_filename (File (Text c)) (files w)\<rparr>)
        \<and> map_of (files (snd (save_comment submission day_dir w))) comment_filename
            = Some (File (Text c))"
    if "first_comment submission = Some c" "c \<noteq> []" for c
    using that by (simp add: save_comment_def j o update_conv')
  moreover have "save_comment submission day_dir w = (Inr (), w)"
    if "first_comment submission = None \<or> first_comment submission = Some []"
    using that by (auto simp: save_comment_def)
  ultimately show ?thesis by blast
qed

lemma save_comment_in_directory_example:
  "map_of (files commented_world) ''data/11_November/14/abc123.txt''
     = Some (File (Text ''an older comment''))
   \<and> save_comment cached_post ''data/11_November/14'' commented_world =
       (Inr (), commented_world\<lparr>files := AList.update ''data/11_November/14/abc123.txt''
          (File (Text ''{source: x}'')) (files commented_world)\<rparr>)
   \<and> map_of (files (snd (save_comment cached_post ''data/11_November/14'' commented_world)))
        ''data/11_November/14/abc123.txt'' = Some (File (Text ''{source: x}''))
   \<and> save_comment dotless_post ''data/11_November/14'' commented_world = (Inr (), commented_world)"
proof -
  have a: "''data/11_November/14'' \<noteq> []" "last ''data/11_November/14'' \<noteq> CHR ''/''"
    "isdir (files commented_world) ''data/11_November/14''"
    by code_simp+
  have b: "CHR ''/'' \<notin> set (id' cached_post)" "CHR ''/'' \<notin> set (id' dotless_post)" by code_simp+
  have c: "''data/11_November/14/abc123.txt'' = ''data/11_November/14'' @ ''/'' @ id' cached_post @ ''.txt''"
    "''data/11_November/14/abc123.txt'' = ''data/11_November/14'' @ ''/'' @ id' dotless_post @ ''.txt''"
    by code_simp+
  have d: "\<not> isdir (files commented_world) ''data/11_November/14/abc123.txt''" by code_simp
  have e: "first_comment cached_post = Some ''{source: x}''" "''{source: x}'' \<noteq> []"
    "first_comment dotless_post = None"
    by (simp_all add: cached_post_def dotless_post_def)
  have f: "map_of (files commented_world) ''data/11_November/14/abc123.txt''
     = Some (File (Text ''an older comment''))"
    by code_simp
  note t1 = save_comment_in_directory[OF a b(1) c(1) d]
  note t2 = save_comment_in_directory[OF a b(2) c(2) d]
  from t1 e have "save_comment cached_post ''data/11_November/14'' commented_world =
       (Inr (), commented_world\<lparr>files := AList.update ''data/11_November/14/abc123.txt''
          (File (Text ''{source: x}'')) (files commented_world)\<rparr>)
     \<and> map_of (files (snd (save_comment cached_post ''data/11_November/14'' commented_world)))
        ''data/11_November/14/abc123.txt'' = Some (File (Text ''{source: x}''))"
    by blast
  moreover from t2 e have "save_comment dotless_post ''data/11_November/14'' commented_world
      = (Inr (), commented_world)"
    by blast
  ultimately show ?thesis using f by blast
qed

lemma path_join_relative:
  "a \<noteq> [] \<Longrightarrow> last a \<noteq> CHR ''/'' \<Longrightarrow> \<not> startswith b ''/'' \<Longrightarrow> path_join a b = a @ ''/'' @ b"
  by (simp add: path_join_def endswith_def suffix_single)

lemma resolve_day_dir_value:
  assumes "resolve_day_dir s w = (Inr day_dir, w1)"
  shows "\<exists>date. utcfromtimestamp (created_utc s) = Inr date \<and> day_dir = day_dir_of date"
  using assms
  by (auto simp: resolve_day_dir_def bind_def split: sum.splits prod.splits)

lemma process_stages:
  assumes "process net s w = (Inr u, w')"
  shows "\<exists>day_dir w1 w2.
           resolve_day_dir s
             (w\<lparr>trace := trace w @ [Print (''Processing '' @ title s @ '' - '' @ permalink s)]\<rparr>)
               = (Inr day_dir, w1)
         \<and> download_image net s day_dir w1 = (Inr (), w2)
         \<and> save_comment s day_dir w2 = (Inr (), w')"
  using assms
  by (auto simp: process_def bind_def emit_def split: sum.splits prod.splits)

lemma save_comment_returns:
  assumes "save_comment s day_dir w = (Inr u, w')"
  shows "(\<forall>c. first_comment s = Some c \<and> c \<noteq> [] \<longrightarrow>
            w' = w\<lparr>files := AList.update (path_join day_dir (id' s @ ''.txt'')) (File (Text c))
                              (files w)\<rparr>)
       \<and> (first_comment s = None \<or> first_comment s = Some [] \<longrightarrow> w' = w)"
  using assms
  by (auto simp: save_comment_def Let_def open_write_def
        split: option.splits if_splits sum.splits)

lemma process_raises:
  assumes "process net s w = (Inl e, w')"
  shows "resolve_day_dir s
           (w\<lparr>trace := trace w @ [Print (''Processing '' @ title s @ '' - '' @ permalink s)]\<rparr>)
             = (Inl e, w')
       \<or> (\<exists>day_dir w1.
             resolve_day_dir s
               (w\<lparr>trace := trace w @ [Print (''Processing '' @ title s @ '' - '' @ permalink s)]\<rparr>)
                 = (Inr day_dir, w1)
           \<and> (download_image net s day_dir w1 = (Inl e, w')
              \<or> download_image net s day_dir w1 = (Inr (), w')
                \<and> save_comment s day_dir w' = (Inl e, w')))"
  using assms
  by (auto simp: process_def bind_def emit_def save_comment_def Let_def
        split: sum.splits prod.splits option.splits if_splits)

text \<open>
  Claim C9, as amended. For every record the loop of \<open>main\<close> processes. If the processing
  returns, the day directory was resolved and the image fetch returned, and the comment
  step is the last one, on the world the fetch left: if \<open>first_comment\<close> is a non-empty
  string, that world is changed at the comment file alone, which then holds the comment
  verbatim, whatever it held before (the file is \<open>day_dir/id.txt\<close> unless the identifier
  starts with a slash); if \<open>first_comment\<close> is absent or empty, the world is the one the
  image fetch left, the comment step writes nothing. If the processing raises, no comment
  was written: the world is the one left by the directory step or the image fetch that
  raised, or by the image fetch when opening the comment file raised.
\<close>

theorem process_persists_comment:
  assumes run: "process net submission w = (r, w')"
    and start: "w0 = w\<lparr>trace := trace w
        @ [Print (''Processing '' @ title submission @ '' - '' @ permalink submission)]\<rparr>"
  shows "(r = Inr () \<longrightarrow>
            (\<exists>date w1 w2.
               utcfromtimestamp (created_utc submission) = Inr date
             \<and> resolve_day_dir submission w0 = (Inr (day_dir_of date), w1)
             \<and> download_image net submission (day_dir_of date) w1 = (Inr (), w2)
             \<and> (\<forall>c. first_comment submission = Some c \<and> c \<noteq> [] \<longrightarrow>
                   w' = w2\<lparr>files := AList.update
                          (path_join (day_dir_of date) (id' submission @ ''.txt''))
                          (File (Text c)) (files w2)\<rparr>
                 \<and> map_of (files w') (path_join (day_dir_of date) (id' submission @ ''.txt''))
                     = Some (File (Text c)))
             \<and> (first_comment submission = None \<or> first_comment submission = Some [] \<longrightarrow>
                   w' = w2)
             \<and> (\<not> startswith (id' submission) ''/'' \<longrightarrow>
                   path_join (day_dir_of date) (id' submission @ ''.txt'')
                     = day_dir_of date @ ''/'' @ id' submission @ ''.txt'')))
       \<and> (\<forall>e. r = Inl e \<longrightarrow>
            resolve_day_dir submission w0 = (Inl e, w')
          \<or> (\<exists>day_dir w1.
                resolve_day_dir submission w0 = (Inr day_dir, w1)
              \<and> (download_image net submission day_dir w1 = (Inl e, w')
                 \<or> download_image net submission day_dir w1 = (Inr (), w')
                   \<and> save_comment submission day_dir w' = (Inl e, w'))))"
proof -
  have S: "\<exists>date w1 w2.
               utcfromtimestamp (created_utc submission) = Inr date
             \<and> resolve_day_dir submission w0 = (Inr (day_dir_of date), w1)
             \<and> download_image net submission (day_dir_of date) w1 = (Inr (), w2)
             \<and> (\<forall>c. first_comment submission = Some c \<and> c \<noteq> [] \<longrightarrow>
                   w' = w2\<lparr>files := AList.update
                          (path_join (day_dir_of date) (id' submission @ ''.txt''))
                          (File (Text c)) (files w2)\<rparr>
                 \<and> map_of (files w') (path_join (day_dir_of date) (id' submission @ ''.txt''))
                     = Some (File (Text c)))
             \<and> (first_comment submission = None \<or> first_comment submission = Some [] \<longrightarrow>
                   w' = w2)
             \<and> (\<not> startswith (id' submission) ''/'' \<longrightarrow>
                   path_join (day_dir_of date) (id' submission @ ''.txt'')
                     = day_dir_of date @ ''/'' @ id' submission @ ''.txt'')"
    if ok: "r = Inr ()"
  proof -
    from run ok have run': "process net submission w = (Inr (), w')" by simp
    from process_stages[OF run'] obtain day_dir w1 w2 where
      r: "resolve_day_dir submission w0 = (Inr day_dir, w1)"
      and d: "download_image net submission day_dir w1 = (Inr (), w2)"
      and s: "save_comment submission day_dir w2 = (Inr (), w')"
      unfolding start by blast
    from resolve_day_dir_value[OF r] obtain date where
      date: "utcfromtimestamp (created_utc submission) = Inr date"
      and dd: "day_dir = day_dir_of date"
      by blast
    note sc = save_comment_returns[OF s, unfolded dd]
    have B: "w' = w2\<lparr>files := AList.update
                          (path_join (day_dir_of date) (id' submission @ ''.txt''))
                          (File (Text c)) (files w2)\<rparr>
                 \<and> map_of (files w') (path_join (day_dir_of date) (id' submission @ ''.txt''))
                     = Some (File (Text c))"
      if "first_comment submission = Some c \<and> c \<noteq> []" for c
      using sc that by (auto simp: update_conv')
    have N: "w' = w2"
      if "first_comment submission = None \<or> first_comment submission = Some []"
      using sc that by blast
    obtain y m dy where ymd: "date = (y, m, dy)" by (cases date) auto
    from date have "ord2ymd (719163 + created_utc submission div 86400) = (y, m, dy)"
      by (simp add: utcfromtimestamp_def ymd split: if_splits)
    from ord2ymd_range[OF this] have rg: "1 \<le> m" "m \<le> 12" "1 \<le> dy" "dy \<le> 31"
      by simp_all
    have form: "day_dir_of date =
        ''data/'' @ two_digits m @ ''_'' @ month_name ! nat m @ ''/'' @ two_digits dy"
      unfolding ymd using rg by (rule day_dir_of_form)
    have dy10: "0 \<le> dy mod 10" "dy mod 10 < 10" by simp_all
    have ne: "day_dir_of date \<noteq> []" "last (day_dir_of date) \<noteq> CHR ''/''"
      using digit_char_not_slash[OF dy10] by (simp_all add: form two_digits_def)
    have C: "path_join (day_dir_of date) (id' submission @ ''.txt'')
                     = day_dir_of date @ ''/'' @ id' submission @ ''.txt''"
      if "\<not> startswith (id' submission) ''/''"
    proof -
      from that have "\<not> startswith (id' submission @ ''.txt'') ''/''"
        by (cases "id' submission") (simp_all add: startswith_def)
      from path_join_relative[OF ne this] show ?thesis by simp
    qed
    from date r[unfolded dd] d[unfolded dd] B N C show ?thesis by blast
  qed
  have F: "resolve_day_dir submission w0 = (Inl e, w')
          \<or> (\<exists>day_dir w1.
                resolve_day_dir submission w0 = (Inr day_dir, w1)
              \<and> (download_image net submission day_dir w1 = (Inl e, w')
                 \<or> download_image net submission day_dir w1 = (Inr (), w')
                   \<and> save_comment submission day_dir w' = (Inl e, w')))"
    if "r = Inl e" for e
    using process_raises[of net submission w e w'] run that unfolding start by simp
  from S F show ?thesis by blast
qed

theorem process_persists_comment_witness:
  "fst (process example_net cached_post commented_world) = Inr ()
   \<and> map_of (files commented_world) ''data/11_November/14/abc123.txt''
       = Some (File (Text ''an older comment''))
   \<and> map_of (files (snd (process example_net cached_post commented_world)))
        ''data/11_November/14/abc123.txt'' = Some (File (Text ''{source: x}''))"
proof -
  have "fst (process example_net cached_post commented_world) = Inr ()" by code_simp
  then obtain w' where r: "process example_net cached_post commented_world = (Inr (), w')"
    by (cases "process example_net cached_post commented_world") auto
  have d: "utcfromtimestamp (created_utc cached_post) = Inr (2023, 11, 14)" by code_simp
  have n: "path_join (day_dir_of (2023, 11, 14)) (id' cached_post @ ''.txt'')
             = ''data/11_November/14/abc123.txt''"
    by code_simp
  have c: "first_comment cached_post = Some ''{source: x}'' \<and> ''{source: x}'' \<noteq> []"
    by (simp add: cached_post_def)
  have o: "map_of (files commented_world) ''data/11_November/14/abc123.txt''
       = Some (File (Text ''an older comment''))"
    by code_simp
  from process_persists_comment[OF r refl] obtain date where
    "utcfromtimestamp (created_utc cached_post) = Inr date"
    and m: "\<forall>c. first_comment cached_post = Some c \<and> c \<noteq> [] \<longrightarrow>
       map_of (files w') (path_join (day_dir_of date) (id' cached_post @ ''.txt''))
         = Some (File (Text c))"
    by blast
  with d have "date = (2023, 11, 14)" by simp
  with m c n
  have "map_of (files w') ''data/11_November/14/abc123.txt'' = Some (File (Text ''{source: x}''))"
    by auto
  with r o show ?thesis by simp
qed

text \<open>
  In the pipeline a record with a comment gets no \<open>.txt\<close> file when its image fetch
  raises, and a record without a comment gets one when its media URL ends in \<open>.txt\<close>:
  the image itself.
\<close>

theorem process_comment_counterexample:
  "first_comment cached_post = Some ''{source: x}''
   \<and> fst (process failing_net cached_post dated_world) = Inl (NetworkError ''connection reset'')
   \<and> map_of (files (snd (process failing_net cached_post dated_world)))
        ''data/11_November/14/abc123.txt'' = None
   \<and> first_comment text_post = None
   \<and> fst (process example_net text_post dated_world) = Inr ()
   \<and> map_of (files (snd (process example_net text_post dated_world)))
        ''data/11_November/14/abc123.txt'' = Some (File (Text ''IMG''))"
  by code_simp

text \<open>Every record of a list that \<open>process_all\<close> gets through was processed by the loop body.\<close>

lemma process_all_runs_process:
  "process_all net posts w = (Inr u, w') \<Longrightarrow> s \<in> set posts \<Longrightarrow>
     \<exists>w1 w2. process net s w1 = (Inr (), w2)"
proof (induction posts arbitrary: w)
  case Nil
  then show ?case by simp
next
  case (Cons p posts)
  obtain r1 w1 where 1: "process net p w = (r1, w1)" by (cases "process net p w")
  with Cons.prems(1) have r1: "r1 = Inr ()" and rest: "process_all net posts w1 = (Inr u, w')"
    by (auto split: sum.splits)
  show ?case
  proof (cases "s = p")
    case True
    with 1 r1 show ?thesis by blast
  next
    case False
    with Cons.prems(2) have "s \<in> set posts" by simp
    from Cons.IH[OF rest this] show ?thesis .
  qed
qed

section \<open>Properties of the Audit Sweep\<close>

lemma listdir_isdir: "isdir fs p \<Longrightarrow> listdir fs p = Inr (entries fs p)"
  by (simp add: listdir_def isdir_def)

lemma listdir_not_dir:
  "\<not> isdir fs p \<Longrightarrow>
     listdir fs p = Inl (case map_of fs p of None \<Rightarrow> FileNotFoundError p
                                           | Some n \<Rightarrow> NotADirectoryError p)"
  by (auto simp: listdir_def isdir_def split: option.splits node.splits)

lemma audit_days_total:
  "list_all (isdir (files w)) (map (path_join month_dir) days) \<Longrightarrow>
     audit_days month_dir days w =
       (Inr (), w\<lparr>trace := trace w @ empty_reports (files w) (map (path_join month_dir) days)\<rparr>)"
proof (induction days arbitrary: w)
  case Nil
  show ?case by (simp add: empty_reports_def)
next
  case (Cons day days)
  let ?p = "path_join month_dir day"
  let ?w = "if entries (files w) ?p = []
            then w\<lparr>trace := trace w @ [Print (''Empty directory: '' @ ?p)]\<rparr> else w"
  have f: "files ?w = files w" by simp
  from Cons.prems have d: "isdir (files w) ?p"
    and r: "list_all (isdir (files ?w)) (map (path_join month_dir) days)"
    by simp_all
  have "audit_days month_dir (day # days) w = audit_days month_dir days ?w"
    using d by (simp add: listdir_isdir Let_def)
  also have "\<dots> = (Inr (), ?w\<lparr>trace := trace ?w
      @ empty_reports (files ?w) (map (path_join month_dir) days)\<rparr>)"
    by (rule Cons.IH[OF r])
  also have "\<dots> = (Inr (), w\<lparr>trace := trace w
      @ empty_reports (files w) (map (path_join month_dir) (day # days))\<rparr>)"
    by (simp add: empty_reports_def)
  finally show ?case .
qed

lemma audit_days_fails:
  "\<not> list_all (isdir (files w)) (map (path_join month_dir) days) \<Longrightarrow>
     \<exists>p \<in> set (map (path_join month_dir) days). \<not> isdir (files w) p
        \<and> fst (audit_days month_dir days w)
            = Inl (case map_of (files w) p of None \<Rightarrow> FileNotFoundError p
                                             | Some n \<Rightarrow> NotADirectoryError p)"
proof (induction days arbitrary: w)
  case Nil
  then show ?case by simp
next
  case (Cons day days)
  let ?p = "path_join month_dir day"
  show ?case
  proof (cases "isdir (files w) ?p")
    case False
    then have "fst (audit_days month_dir (day # days) w)
        = Inl (case map_of (files w) ?p of None \<Rightarrow> FileNotFoundError ?p
                                          | Some n \<Rightarrow> NotADirectoryError ?p)"
      by (simp add: listdir_not_dir Let_def)
    with False show ?thesis by auto
  next
    case True
    let ?w = "if entries (files w) ?p = []
              then w\<lparr>trace := trace w @ [Print (''Empty directory: '' @ ?p)]\<rparr> else w"
    have f: "files ?w = files w" by simp
    have step: "audit_days month_dir (day # days) w = audit_days month_dir days ?w"
      using True by (simp add: listdir_isdir Let_def)
    from Cons.prems True
    have "\<not> list_all (isdir (files ?w)) (map (path_join month_dir) days)" by simp
    from Cons.IH[OF this] show ?thesis
      unfolding step f by auto
  qed
qed

lemma audit_days_files:
  "audit_days month_dir days w = (r, w') \<Longrightarrow> files w' = files w"
proof (induction days arbitrary: w)
  case Nil
  then show ?case by simp
next
  case (Cons day days)
  then show ?case
    by (auto simp: Let_def split: sum.splits if_splits)
qed

lemma day_paths_Cons:
  "day_paths fs (month # months) =
     (if isdir fs (path_join data_dir month)
      then map (path_join (path_join data_dir month)) (entries fs (path_join data_dir month))
      else []) @ day_paths fs months"
  by (simp add: day_paths_def)

lemma empty_reports_append:
  "empty_reports fs (ps @ qs) = empty_reports fs ps @ empty_reports fs qs"
  by (simp add: empty_reports_def)

lemma audit_months_total:
  "list_all (isdir (files w)) (day_paths (files w) months) \<Longrightarrow>
     audit_months months w =
       (Inr (), w\<lparr>trace := trace w @ empty_reports (files w) (day_paths (files w) months)\<rparr>)"
proof (induction months arbitrary: w)
  case Nil
  show ?case by (simp add: day_paths_def empty_reports_def)
next
  case (Cons month months)
  let ?md = "path_join data_dir month"
  show ?case
  proof (cases "isdir (files w) ?md")
    case False
    then show ?thesis using Cons by (simp add: day_paths_Cons Let_def)
  next
    case True
    let ?days = "entries (files w) ?md"
    let ?w1 = "w\<lparr>trace := trace w @ empty_reports (files w) (map (path_join ?md) ?days)\<rparr>"
    from Cons.prems True have a: "list_all (isdir (files w)) (map (path_join ?md) ?days)"
      and b: "list_all (isdir (files ?w1)) (day_paths (files ?w1) months)"
      by (simp_all add: day_paths_Cons)
    have "audit_months (month # months) w = audit_months months ?w1"
      using True audit_days_total[OF a] by (simp add: listdir_isdir Let_def)
    also have "\<dots> = (Inr (), ?w1\<lparr>trace := trace ?w1
        @ empty_reports (files ?w1) (day_paths (files ?w1) months)\<rparr>)"
      by (rule Cons.IH[OF b])
    also have "\<dots> = (Inr (), w\<lparr>trace := trace w
        @ empty_reports (files w) (day_paths (files w) (month # months))\<rparr>)"
      using True by (simp add: day_paths_Cons empty_reports_append)
    finally show ?thesis .
  qed
qed

lemma audit_months_fails:
  "\<not> list_all (isdir (files w)) (day_paths (files w) months) \<Longrightarrow>
     \<exists>p \<in> set (day_paths (files w) months). \<not> isdir (files w) p
        \<and> fst (audit_months months w)
            = Inl (case map_of (files w) p of None \<Rightarrow> FileNotFoundError p
                                             | Some n \<Rightarrow> NotADirectoryError p)"
proof (induction months arbitrary: w)
  case Nil
  then show ?case by (simp add: day_paths_def)
next
  case (Cons month months)
  let ?md = "path_join data_dir month"
  show ?case
  proof (cases "isdir (files w) ?md")
    case False
    then have "audit_months (month # months) w = audit_months months w"
      by (simp add: Let_def)
    moreover from False Cons.prems
    have "\<not> list_all (isdir (files w)) (day_paths (files w) months)"
      by (simp add: day_paths_Cons)
    ultimately show ?thesis
      using Cons.IH[of w] False by (auto simp: day_paths_Cons)
  next
    case True
    let ?days = "entries (files w) ?md"
    show ?thesis
    proof (cases "list_all (isdir (files w)) (map (path_join ?md) ?days)")
      case False
      from audit_days_fails[OF False] obtain p where
        p: "p \<in> set (map (path_join ?md) ?days)" "\<not> isdir (files w) p"
        and e: "fst (audit_days ?md ?days w)
            = Inl (case map_of (files w) p of None \<Rightarrow> FileNotFoundError p
                                             | Some n \<Rightarrow> NotADirectoryError p)"
        by blast
      have "fst (audit_months (month # months) w)
            = Inl (case map_of (files w) p of None \<Rightarrow> FileNotFoundError p
                                             | Some n \<Rightarrow> NotADirectoryError p)"
        using True e by (auto simp: listdir_isdir Let_def split: prod.splits sum.splits)
      moreover have "p \<in> set (day_paths (files w) (month # months))"
        using p(1) True by (simp add: day_paths_Cons)
      ultimately show ?thesis using p(2) by blast
    next
      case ok: True
      let ?w1 = "w\<lparr>trace := trace w @ empty_reports (files w) (map (path_join ?md) ?days)\<rparr>"
      have step: "audit_months (month # months) w = audit_months months ?w1"
        using True audit_days_total[OF ok] by (simp add: listdir_isdir Let_def)
      from Cons.prems True ok
      have "\<not> list_all (isdir (files ?w1)) (day_paths (files ?w1) months)"
        by (simp add: day_paths_Cons)
      from Cons.IH[OF this] show ?thesis
        unfolding step using True by (auto simp: day_paths_Cons)
    qed
  qed
qed

lemma child_name_Some:
  "child_name d q = Some n \<Longrightarrow> q = d @ ''/'' @ n \<and> n \<noteq> [] \<and> CHR ''/'' \<notin> set n"
  by (auto simp: child_name_def Let_def prefix_def split: if_splits)

lemma entries_are_paths:
  assumes "n \<in> set (entries fs d)"
  shows "map_of fs (d @ ''/'' @ n) \<noteq> None \<and> n \<noteq> [] \<and> CHR ''/'' \<notin> set n"
proof -
  from assms obtain q where q: "q \<in> set (map fst fs)" "child_name d q = Some n"
    by (fastforce simp: entries_def List.map_filter_def)
  from child_name_Some[OF q(2)] q(1) show ?thesis
    by (auto simp: map_of_eq_None_iff)
qed

lemma day_paths_exist:
  assumes "p \<in> set (day_paths fs (entries fs data_dir))"
  shows "map_of fs p \<noteq> None"
proof -
  from assms obtain month day where m: "month \<in> set (entries fs data_dir)"
    and d: "day \<in> set (entries fs (path_join data_dir month))"
    and p: "p = path_join (path_join data_dir month) day"
    by (auto simp: day_paths_def)
  note em = entries_are_paths[OF m]
  have md: "path_join data_dir month = ''data/'' @ month"
    using em by (simp add: path_join_plain data_dir_def)
  have "last (''data/'' @ month) \<noteq> CHR ''/''"
    using em by (metis (no_types, opaque_lifting) last_appendR last_in_set)
  then have "path_join (''data/'' @ month) day = (''data/'' @ month) @ ''/'' @ day"
    using entries_are_paths[OF d] by (intro path_join_plain) simp_all
  then show ?thesis
    using entries_are_paths[OF d] p md by simp
qed

text \<open>
  Claim C10. With the data directory in place, the sweep visits the entries of the month
  directories; entries of the data directory that are not directories are passed over, and
  inside a month directory no such test is made. If every visited entry is a directory,
  the sweep returns and has reported exactly the visited entries whose listing is empty,
  in order, before \<open>Audit complete\<close>. If one is not, it is a regular file, and the sweep
  ends with the \<open>NotADirectoryError\<close> of listing it: the sweep returns only if no regular
  file sits directly inside a month directory.
\<close>

theorem audit_sweep:
  assumes root: "isdir (files w) data_dir"
    and days: "days = day_paths (files w) (entries (files w) data_dir)"
  shows "(list_all (isdir (files w)) days \<longrightarrow>
            perform_audit w =
              (Inr (), w\<lparr>trace := trace w @ empty_reports (files w) days
                                       @ [Print ''Audit complete'']\<rparr>))
       \<and> (\<not> list_all (isdir (files w)) days \<longrightarrow>
            (\<exists>p \<in> set days. \<exists>c. map_of (files w) p = Some (File c)
                \<and> fst (perform_audit w) = Inl (NotADirectoryError p)))"
proof (intro conjI impI)
  assume "list_all (isdir (files w)) days"
  then have "audit_months (entries (files w) data_dir) w =
       (Inr (), w\<lparr>trace := trace w @ empty_reports (files w) days\<rparr>)"
    unfolding days by (rule audit_months_total)
  then show "perform_audit w =
              (Inr (), w\<lparr>trace := trace w @ empty_reports (files w) days
                                       @ [Print ''Audit complete'']\<rparr>)"
    using root by (simp add: perform_audit_def listdir_isdir emit_def)
next
  assume "\<not> list_all (isdir (files w)) days"
  then have "\<not> list_all (isdir (files w)) (day_paths (files w) (entries (files w) data_dir))"
    by (simp add: days)
  from audit_months_fails[OF this] obtain p where p: "p \<in> set days" "\<not> isdir (files w) p"
    and e: "fst (audit_months (entries (files w) data_dir) w)
            = Inl (case map_of (files w) p of None \<Rightarrow> FileNotFoundError p
                                             | Some n \<Rightarrow> NotADirectoryError p)"
    unfolding days by blast
  from p(1) have "map_of (files w) p \<noteq> None"
    unfolding days by (rule day_paths_exist)
  then obtain n where n: "map_of (files w) p = Some n" by blast
  with p(2) have "n \<noteq> Dir" by (auto simp: isdir_def)
  then obtain c where "n = File c" by (cases n) auto
  with n have c: "map_of (files w) p = Some (File c)" by simp
  have "fst (perform_audit w) = Inl (NotADirectoryError p)"
    using root e c by (auto simp: perform_audit_def listdir_isdir split: prod.splits sum.splits)
  with p(1) c show "\<exists>p \<in> set days. \<exists>c. map_of (files w) p = Some (File c)
                \<and> fst (perform_audit w) = Inl (NotADirectoryError p)"
    by blast
qed

theorem audit_sweep_witness:
  "perform_audit audit_world =
     (Inr (), audit_world\<lparr>trace := [Print ''Empty directory: data/11_November/15'',
                                      Print ''Audit complete'']\<rparr>)
   \<and> fst (perform_audit stray_world) = Inl (NotADirectoryError ''data/11_November/notes.txt'')"
proof -
  have a: "isdir (files audit_world) data_dir" "isdir (files stray_world) data_dir" by code_simp+
  have b: "[''data/11_November/14'', ''data/11_November/15'']
             = day_paths (files audit_world) (entries (files audit_world) data_dir)"
    by code_simp
  have c: "[''data/11_November/15'', ''data/11_November/notes.txt'', ''data/11_November/16'']
             = day_paths (files stray_world) (entries (files stray_world) data_dir)"
    by code_simp
  have d: "list_all (isdir (files audit_world)) [''data/11_November/14'', ''data/11_November/15'']"
    by code_simp
  have e: "\<not> list_all (isdir (files stray_world))
      [''data/11_November/15'', ''data/11_November/notes.txt'', ''data/11_November/16'']"
    by code_simp
  have f: "trace audit_world @ empty_reports (files audit_world)
        [''data/11_November/14'', ''data/11_November/15''] @ [Print ''Audit complete'']
      = [Print ''Empty directory: data/11_November/15'', Print ''Audit complete'']"
    by code_simp
  have g: "map_of (files stray_world) ''data/11_November/15'' = Some Dir"
    "map_of (files stray_world) ''data/11_November/16'' = Some Dir"
    by code_simp+
  from audit_sweep[OF a(1) b] d
  have 1: "perform_audit audit_world =
     (Inr (), audit_world\<lparr>trace := [Print ''Empty directory: data/11_November/15'',
                                      Print ''Audit complete'']\<rparr>)"
    by (simp only: f)
  from audit_sweep[OF a(2) c] e
  obtain p c' where "p \<in> set [''data/11_November/15'', ''data/11_November/notes.txt'',
        ''data/11_November/16'']"
    and "map_of (files stray_world) p = Some (File c')"
    and r: "fst (perform_audit stray_world) = Inl (NotADirectoryError p)"
    by blast
  then have "p = ''data/11_November/notes.txt''" using g by auto
  with r 1 show ?thesis by simp
qed

end
